theory Spec2Isabelle
  imports Main "HOL-Library.Word"
begin

unbundle bit_operations_syntax

section \<open>Two-phase commit manager (twophase.c): data model\<close>

text \<open>
  The embedding follows \<^verbatim>\<open>src/backend/access/transam/twophase.c\<close>. Machine integers
  are words of their C width. The platform is the usual LP64 little-endian one:
  \<^verbatim>\<open>MAXIMUM_ALIGNOF\<close> is 8, \<^verbatim>\<open>sizeof(TwoPhaseFileHeader)\<close> is 240,
  \<^verbatim>\<open>sizeof(TwoPhaseRecordOnDisk)\<close> is 8, \<^verbatim>\<open>sizeof(TransactionId)\<close> is 4,
  \<^verbatim>\<open>sizeof(RelFileNode)\<close> is 12 and \<^verbatim>\<open>sizeof(pg_crc32)\<close> is 4.

  A \<^verbatim>\<open>GlobalTransaction\<close> is a pointer into the array of slots that
  \<^verbatim>\<open>TwoPhaseShmemInit\<close> carves out of shared memory; the pointer \<^verbatim>\<open>&gxacts[i]\<close> is
  the index \<open>i\<close>, and \<^verbatim>\<open>NULL\<close> is \<open>None\<close>. An \<^verbatim>\<open>ereport(ERROR)\<close> is a result
  \<open>Inl e\<close> returned together with the state as it stands when the error is raised;
  an \<^verbatim>\<open>Assert\<close> that fails is the result \<open>Inl AssertFailure\<close> (assert-enabled build).
  Lightweight locks are not represented: every function runs alone.
\<close>

type_synonym uint8 = "8 word"
type_synonym uint16 = "16 word"
type_synonym uint32 = "32 word"
type_synonym int32 = "32 word"
type_synonym TransactionId = "32 word"
type_synonym Oid = "32 word"
type_synonym BackendId = int
type_synonym TimestampTz = "64 word"
type_synonym GlobalTransaction = nat
type_synonym byte = "8 word"
type_synonym TwoPhaseRmgrId = "8 word"

datatype error =
    GidTooLong          \<comment> \<open>\<^verbatim>\<open>ERRCODE_INVALID_PARAMETER_VALUE\<close>, identifier too long\<close>
  | Disabled            \<comment> \<open>prepared transactions are disabled\<close>
  | DuplicateGid        \<comment> \<open>\<^verbatim>\<open>ERRCODE_DUPLICATE_OBJECT\<close>\<close>
  | CapacityExhausted   \<comment> \<open>maximum number of prepared transactions reached\<close>
  | NotFound            \<comment> \<open>\<^verbatim>\<open>ERRCODE_UNDEFINED_OBJECT\<close>\<close>
  | Busy                \<comment> \<open>prepared transaction is busy\<close>
  | PermissionDenied    \<comment> \<open>\<^verbatim>\<open>ERRCODE_INSUFFICIENT_PRIVILEGE\<close>\<close>
  | WrongDatabase       \<comment> \<open>prepared transaction belongs to another database\<close>
  | LimitExceeded       \<comment> \<open>\<^verbatim>\<open>ERRCODE_PROGRAM_LIMIT_EXCEEDED\<close>\<close>
  | CorruptWal          \<comment> \<open>\<^verbatim>\<open>ERRCODE_DATA_CORRUPTED\<close>\<close>
  | SlotNotInArray      \<comment> \<open>\<^verbatim>\<open>elog(ERROR, "failed to find %p in GlobalTransaction array")\<close>\<close>
  | InvalidAllocSize    \<comment> \<open>\<^verbatim>\<open>palloc\<close> of more than \<^verbatim>\<open>MaxAllocSize\<close> bytes\<close>
  | Panic               \<comment> \<open>\<^verbatim>\<open>elog(PANIC)\<close>\<close>
  | AssertFailure       \<comment> \<open>a failed \<^verbatim>\<open>Assert\<close>\<close>
  | MemoryFault         \<comment> \<open>an access outside the object: undefined in C\<close>

record XLogRecPtr =
  xlogid :: uint32
  xrecoff :: uint32

text \<open>
  The dummy \<^verbatim>\<open>PGPROC\<close> of a slot, with the fields twophase.c reads or writes by name.
  Its lock queues, wait links and distributed-transaction bookkeeping take no part
  in the functions below and are not represented.
\<close>

record PGPROC =
  links_next :: "GlobalTransaction option"
  lxid :: uint32
  xid :: TransactionId
  xmin :: TransactionId
  pid :: int
  backendId :: BackendId
  databaseId :: Oid
  roleId :: Oid
  inCommit :: bool
  subxids_overflowed :: bool
  subxids_nxids :: int
  subxids_xids :: "TransactionId list"

record GlobalTransactionData =
  proc :: PGPROC
  dummyBackendId :: BackendId
  prepared_at :: TimestampTz
  prepare_begin_lsn :: XLogRecPtr
  prepare_lsn :: XLogRecPtr
  owner :: Oid
  locking_backend :: BackendId
  valid :: bool
  gid :: string
  prepareAppendOnlyIntentCount :: int

record TwoPhaseStateData =
  freeGXacts :: "GlobalTransaction option"
  numPrepXacts :: nat
  prepXacts :: "GlobalTransaction list"

text \<open>
  The chain of \<^verbatim>\<open>XLogRecData\<close> blocks in which the state file is assembled
  (\<^verbatim>\<open>records\<close>). A block is kept as the bytes \<^verbatim>\<open>data[0 .. len - 1]\<close> it holds so far,
  head first; the tail is the last one. \<^verbatim>\<open>bytes_free\<close> and \<^verbatim>\<open>total_len\<close> are
  \<^verbatim>\<open>uint32\<close>: integers from 0 up to \<open>2 ^ 32 - 1\<close>, every assignment to them reduced
  modulo \<open>2 ^ 32\<close>.
\<close>

record xllist =
  blocks :: "byte list list"
  bytes_free :: int
  total_len :: int

record RelFileNode =
  spcNode :: Oid
  dbNode :: Oid
  relNode :: Oid

text \<open>
  The write-ahead log, as far as twophase.c sees it: the records inserted, each with the
  position it starts at. A PREPARE record carries the assembled state file; the records
  of the second phase carry the XID, the files to drop and the children.
\<close>

datatype xlog_record =
    XLOG_XACT_PREPARE "byte list"
  | XLOG_XACT_COMMIT_PREPARED TransactionId "RelFileNode list" "TransactionId list"
  | XLOG_XACT_ABORT_PREPARED TransactionId "RelFileNode list" "TransactionId list"

datatype XidStatus =
    TRANSACTION_STATUS_IN_PROGRESS
  | TRANSACTION_STATUS_COMMITTED
  | TRANSACTION_STATUS_ABORTED

text \<open>One call of a resource manager's callback: \<^verbatim>\<open>callbacks[rmid](xid, info, data, len)\<close>.\<close>

record callback_call =
  call_rmid :: TwoPhaseRmgrId
  call_xid :: TransactionId
  call_info :: uint16
  call_data :: "byte list"
  call_len :: uint32

text \<open>
  What a backend sees. Shared memory: \<^verbatim>\<open>TwoPhaseState\<close>, the array of slots behind it,
  the process array (the dummy procs entered in it) and the next XID of
  \<^verbatim>\<open>ShmemVariableCache\<close>. The backend's own statics: \<^verbatim>\<open>MyLockedGxact\<close>,
  \<^verbatim>\<open>twophaseExitRegistered\<close>, the chain \<^verbatim>\<open>records\<close>, the hash table
  \<^verbatim>\<open>crashRecoverPostCheckpointPreparedTransactions_map_ht\<close> (\<open>None\<close> until it is first
  created; its entries in the order a sequential scan returns them), the in-commit flag of
  \<^verbatim>\<open>MyProc\<close> and the depth of critical sections. The durable state: the WAL, the commit
  log, the distributed log and the relation files unlinked so far. \<open>callback_log\<close> keeps
  the calls made to resource-manager callbacks, the only trace of them here.
\<close>

record twophase =
  TwoPhaseState :: TwoPhaseStateData
  gxacts :: "GlobalTransactionData list"
  procArray :: "GlobalTransaction list"
  nextXid :: TransactionId
  MyLockedGxact :: "GlobalTransaction option"
  twophaseExitRegistered :: bool
  records :: xllist
  prepared_map_ht :: "(TransactionId \<times> XLogRecPtr) list option"
  MyProc_inCommit :: bool
  CritSectionCount :: nat
  xlog :: "(XLogRecPtr \<times> xlog_record) list"
  clog :: "(TransactionId \<times> XidStatus) list"
  distributedLog :: "TransactionId list"
  unlinked :: "(RelFileNode \<times> nat) list"
  callback_log :: "callback_call list"

text \<open>
  The settings and per-backend globals the functions read, and what they use of the rest
  of the server. The constants \<^verbatim>\<open>PGPROC_MAX_CACHED_SUBXIDS\<close> (storage/proc.h),
  \<^verbatim>\<open>MaxAllocSize\<close> (utils/memutils.h), \<^verbatim>\<open>TWOPHASE_RM_END_ID\<close> and
  \<^verbatim>\<open>TWOPHASE_RM_MAX_ID\<close> (access/twophase_rmgr.h) and \<^verbatim>\<open>MAX_FORKNUM\<close>, the callback
  tables of twophase_rmgr.c (here: which entries are not \<^verbatim>\<open>NULL\<close>), \<^verbatim>\<open>superuser_arg\<close>,
  \<^verbatim>\<open>GetUserId\<close> and the XID comparisons of access/transam.c are declared outside the
  files at hand and are taken as parameters. So are the positions the WAL hands out:
  \<open>XLogInsert_position\<close> gives, for the log so far and the record to insert, where the
  record begins (\<^verbatim>\<open>XLogLastInsertBeginLoc\<close>) and where it ends (the result of
  \<^verbatim>\<open>XLogInsert\<close>). \<open>junk\<close> is the content of memory nobody has written: the bytes of a
  \<^verbatim>\<open>palloc\<close>'d block and the padding inside a struct, by position in the state file.
\<close>

record env =
  max_prepared_xacts :: nat
  MaxBackends :: int
  MyBackendId :: BackendId
  MyDatabaseId :: Oid
  Gp_role_is_execute :: bool
  GetUserId :: Oid
  superuser_arg :: "Oid \<Rightarrow> bool"
  PGPROC_MAX_CACHED_SUBXIDS :: nat
  MaxAllocSize :: int
  TWOPHASE_RM_END_ID :: TwoPhaseRmgrId
  TWOPHASE_RM_MAX_ID :: TwoPhaseRmgrId
  MAX_FORKNUM :: nat
  twophase_postcommit_callbacks :: "TwoPhaseRmgrId \<Rightarrow> bool"
  twophase_postabort_callbacks :: "TwoPhaseRmgrId \<Rightarrow> bool"
  twophase_recover_callbacks :: "TwoPhaseRmgrId \<Rightarrow> bool"
  TransactionIdPrecedes :: "TransactionId \<Rightarrow> TransactionId \<Rightarrow> bool"
  TransactionIdFollows :: "TransactionId \<Rightarrow> TransactionId \<Rightarrow> bool"
  TransactionIdFollowsOrEquals :: "TransactionId \<Rightarrow> TransactionId \<Rightarrow> bool"
  TransactionIdAdvance :: "TransactionId \<Rightarrow> TransactionId"
  XLogInsert_position :: "(XLogRecPtr \<times> xlog_record) list \<Rightarrow> xlog_record \<Rightarrow> XLogRecPtr \<times> XLogRecPtr"
  Debug_abort_after_segment_prepared :: bool
  junk :: "nat \<Rightarrow> byte"

definition GIDSIZE :: nat where
  "GIDSIZE = 200"

definition InvalidBackendId :: BackendId where
  "InvalidBackendId = - 1"

definition InvalidTransactionId :: TransactionId where
  "InvalidTransactionId = 0"

definition zero_lsn :: XLogRecPtr where
  "zero_lsn = \<lparr>xlogid = 0, xrecoff = 0\<rparr>"

definition deref :: "twophase \<Rightarrow> GlobalTransaction \<Rightarrow> GlobalTransactionData" where
  "deref st g = gxacts st ! g"

definition store :: "GlobalTransaction \<Rightarrow> GlobalTransactionData \<Rightarrow> twophase \<Rightarrow> twophase" where
  "store g v st = st\<lparr>gxacts := (gxacts st)[g := v]\<rparr>"

text \<open>The live part of the pointer array: \<^verbatim>\<open>prepXacts[0 .. numPrepXacts - 1]\<close>.\<close>

definition resident :: "twophase \<Rightarrow> GlobalTransaction list" where
  "resident st =
     map (\<lambda>i. prepXacts (TwoPhaseState st) ! i) [0 ..< numPrepXacts (TwoPhaseState st)]"

subsection \<open>Shared-memory initialisation\<close>

text \<open>A slot of the freshly allocated (zero-filled) segment.\<close>

definition empty_PGPROC :: "env \<Rightarrow> PGPROC" where
  "empty_PGPROC e = \<lparr>links_next = None, lxid = 0, xid = 0, xmin = 0, pid = 0, backendId = 0,
     databaseId = 0, roleId = 0, inCommit = False, subxids_overflowed = False,
     subxids_nxids = 0, subxids_xids = replicate (PGPROC_MAX_CACHED_SUBXIDS e) 0\<rparr>"

definition empty_gxact :: "env \<Rightarrow> GlobalTransactionData" where
  "empty_gxact e = \<lparr>proc = empty_PGPROC e, dummyBackendId = 0, prepared_at = 0,
     prepare_begin_lsn = zero_lsn, prepare_lsn = zero_lsn, owner = 0, locking_backend = 0,
     valid = False, gid = [], prepareAppendOnlyIntentCount = 0\<rparr>"

text \<open>
  The loop of \<^verbatim>\<open>TwoPhaseShmemInit\<close>: slot \<open>i\<close> is pushed on the free list and gets the
  dummy backend id \<^verbatim>\<open>MaxBackends + 1 + i\<close>.
\<close>

fun init_gxacts :: "env \<Rightarrow> nat \<Rightarrow> nat \<Rightarrow> twophase \<Rightarrow> twophase" where
  "init_gxacts e i 0 st = st"
| "init_gxacts e i (Suc n) st =
     init_gxacts e (Suc i) n
       ((store i ((deref st i)\<lparr>proc := (proc (deref st i))\<lparr>links_next := freeGXacts (TwoPhaseState st)\<rparr>,
                                dummyBackendId := MaxBackends e + 1 + int i\<rparr>) st)
          \<lparr>TwoPhaseState := (TwoPhaseState st)\<lparr>freeGXacts := Some i\<rparr>\<rparr>)"

definition TwoPhaseShmemInit :: "env \<Rightarrow> twophase \<Rightarrow> twophase" where
  "TwoPhaseShmemInit e st =
     init_gxacts e 0 (max_prepared_xacts e)
       (st\<lparr>TwoPhaseState := \<lparr>freeGXacts = None, numPrepXacts = 0,
                                prepXacts = replicate (max_prepared_xacts e) 0\<rparr>,
           gxacts := replicate (max_prepared_xacts e) (empty_gxact e)\<rparr>)"

subsection \<open>Reserving, loading, validating, locking and removing a slot\<close>

text \<open>The duplicate-GID loop of \<^verbatim>\<open>MarkAsPreparing\<close>: \<^verbatim>\<open>strcmp(gxact->gid, gid) == 0\<close>.\<close>

fun gid_in_use :: "twophase \<Rightarrow> string \<Rightarrow> GlobalTransaction list \<Rightarrow> bool" where
  "gid_in_use st g [] = False"
| "gid_in_use st g (p # ps) = (if gid (deref st p) = g then True else gid_in_use st g ps)"

definition MarkAsPreparing ::
  "env \<Rightarrow> TransactionId \<Rightarrow> string \<Rightarrow> TimestampTz \<Rightarrow> Oid \<Rightarrow> Oid \<Rightarrow> XLogRecPtr option
     \<Rightarrow> twophase \<Rightarrow> (error + GlobalTransaction) \<times> twophase" where
  "MarkAsPreparing e xid' gid' prepared_at' owner' databaseid xlogrecptr st0 =
     (let st = st0\<lparr>twophaseExitRegistered := True\<rparr> in
      if length gid' \<ge> GIDSIZE then (Inl GidTooLong, st)
      else if max_prepared_xacts e = 0 then (Inl Disabled, st)
      else if gid_in_use st gid' (resident st) then (Inl DuplicateGid, st)
      else
        (case freeGXacts (TwoPhaseState st) of
           None \<Rightarrow> (Inl CapacityExhausted, st)
         | Some g \<Rightarrow>
            (let old = deref st g;
                 tps = (TwoPhaseState st)\<lparr>freeGXacts := links_next (proc old)\<rparr>;
                 new = old\<lparr>
                   proc := \<lparr>links_next = None, lxid = xid', xid = xid',
                             xmin = InvalidTransactionId, pid = 0, backendId = InvalidBackendId,
                             databaseId = databaseid, roleId = owner', inCommit = False,
                             subxids_overflowed = False, subxids_nxids = 0,
                             subxids_xids = replicate (PGPROC_MAX_CACHED_SUBXIDS e) 0\<rparr>,
                   prepared_at := prepared_at',
                   prepare_lsn := zero_lsn,
                   prepare_begin_lsn := (case xlogrecptr of None \<Rightarrow> zero_lsn | Some p \<Rightarrow> p),
                   owner := owner',
                   locking_backend := MyBackendId e,
                   valid := False,
                   gid := gid',
                   prepareAppendOnlyIntentCount := 0\<rparr>;
                 st1 = (store g new st)\<lparr>TwoPhaseState := tps\<rparr>
             in if \<not> numPrepXacts tps < max_prepared_xacts e then (Inl AssertFailure, st1)
                else (Inr g,
                      st1\<lparr>TwoPhaseState := tps\<lparr>prepXacts := (prepXacts tps)[numPrepXacts tps := g],
                                                  numPrepXacts := numPrepXacts tps + 1\<rparr>,
                          MyLockedGxact := Some g\<rparr>))))"

text \<open>
  \<^verbatim>\<open>GXactLoadSubxactData\<close>: \<^verbatim>\<open>memcpy\<close> of the first \<open>nsubxacts\<close> children over the
  front of the fixed array \<^verbatim>\<open>subxids.xids\<close>.
\<close>

definition GXactLoadSubxactData ::
  "env \<Rightarrow> GlobalTransaction \<Rightarrow> int \<Rightarrow> TransactionId list \<Rightarrow> twophase \<Rightarrow> twophase" where
  "GXactLoadSubxactData e g nsubxacts children st =
     (let gx = deref st g;
          over = (nsubxacts > int (PGPROC_MAX_CACHED_SUBXIDS e));
          p1 = (if over then (proc gx)\<lparr>subxids_overflowed := True\<rparr> else proc gx);
          n = (if over then int (PGPROC_MAX_CACHED_SUBXIDS e) else nsubxacts);
          p2 = (if n > 0
                then p1\<lparr>subxids_xids := take (nat n) children @ drop (nat n) (subxids_xids p1),
                        subxids_nxids := n\<rparr>
                else p1)
      in store g (gx\<lparr>proc := p2\<rparr>) st)"

definition ProcArrayAdd :: "GlobalTransaction \<Rightarrow> twophase \<Rightarrow> twophase" where
  "ProcArrayAdd g st = st\<lparr>procArray := procArray st @ [g]\<rparr>"

definition MarkAsPrepared :: "GlobalTransaction \<Rightarrow> twophase \<Rightarrow> (error + unit) \<times> twophase" where
  "MarkAsPrepared g st =
     (if valid (deref st g) then (Inl AssertFailure, st)
      else (Inr (), ProcArrayAdd g (store g ((deref st g)\<lparr>valid := True\<rparr>) st)))"

text \<open>
  The scan of \<^verbatim>\<open>LockGXact\<close> over \<^verbatim>\<open>prepXacts[i]\<close>, \<open>i\<close> ascending. A slot that is not
  valid or carries another GID is passed over (\<^verbatim>\<open>continue\<close>); the first other slot decides.
\<close>

fun LockGXact_scan ::
  "env \<Rightarrow> string \<Rightarrow> Oid \<Rightarrow> twophase \<Rightarrow> GlobalTransaction list
     \<Rightarrow> ((error + GlobalTransaction) \<times> twophase) option" where
  "LockGXact_scan e gid' user st [] = None"
| "LockGXact_scan e gid' user st (p # ps) =
     (let gxact = deref st p in
      if \<not> valid gxact then LockGXact_scan e gid' user st ps
      else if gid gxact \<noteq> gid' then LockGXact_scan e gid' user st ps
      else if locking_backend gxact \<noteq> InvalidBackendId then Some (Inl Busy, st)
      else if user \<noteq> owner gxact \<and> \<not> superuser_arg e user then Some (Inl PermissionDenied, st)
      else if MyDatabaseId e \<noteq> databaseId (proc gxact) \<and> \<not> Gp_role_is_execute e
        then Some (Inl WrongDatabase, st)
      else if MyBackendId e = InvalidBackendId then Some (Inl AssertFailure, st)
      else Some (Inr p, (store p (gxact\<lparr>locking_backend := MyBackendId e\<rparr>) st)
                          \<lparr>MyLockedGxact := Some p\<rparr>))"

definition LockGXact ::
  "env \<Rightarrow> string \<Rightarrow> Oid \<Rightarrow> bool \<Rightarrow> twophase
     \<Rightarrow> (error + GlobalTransaction option) \<times> twophase" where
  "LockGXact e gid' user raiseErrorIfNotFound st0 =
     (let st = st0\<lparr>twophaseExitRegistered := True\<rparr> in
      case LockGXact_scan e gid' user st (resident st) of
        Some (Inl err, st') \<Rightarrow> (Inl err, st')
      | Some (Inr p, st') \<Rightarrow> (Inr (Some p), st')
      | None \<Rightarrow> if raiseErrorIfNotFound then (Inl NotFound, st) else (Inr None, st))"

text \<open>
  \<^verbatim>\<open>RemoveGXact\<close>: the first index holding the pointer is overwritten with the last
  live entry, the count drops by one, and the slot is pushed on the free list.
\<close>

fun RemoveGXact_scan :: "GlobalTransaction \<Rightarrow> nat \<Rightarrow> GlobalTransaction list \<Rightarrow> nat option" where
  "RemoveGXact_scan g i [] = None"
| "RemoveGXact_scan g i (p # ps) = (if g = p then Some i else RemoveGXact_scan g (Suc i) ps)"

definition RemoveGXact :: "GlobalTransaction \<Rightarrow> twophase \<Rightarrow> (error + unit) \<times> twophase" where
  "RemoveGXact g st =
     (case RemoveGXact_scan g 0 (resident st) of
        None \<Rightarrow> (Inl SlotNotInArray, st)
      | Some i \<Rightarrow>
         (let tps = TwoPhaseState st;
              n = numPrepXacts tps - 1;
              arr = (prepXacts tps)[i := prepXacts tps ! n];
              gx = deref st g;
              st1 = store g (gx\<lparr>proc := (proc gx)\<lparr>links_next := freeGXacts tps\<rparr>\<rparr>) st
          in (Inr (), st1\<lparr>TwoPhaseState :=
                             tps\<lparr>numPrepXacts := n, prepXacts := arr, freeGXacts := Some g\<rparr>\<rparr>)))"

text \<open>\<^verbatim>\<open>AtAbort_Twophase\<close>, which \<^verbatim>\<open>AtProcExit_Twophase\<close> calls unchanged.\<close>

definition AtAbort_Twophase :: "twophase \<Rightarrow> (error + unit) \<times> twophase" where
  "AtAbort_Twophase st =
     (case MyLockedGxact st of
        None \<Rightarrow> (Inr (), st)
      | Some g \<Rightarrow>
         if \<not> valid (deref st g) then
           (case RemoveGXact g st of
              (Inl err, st') \<Rightarrow> (Inl err, st')
            | (Inr u, st') \<Rightarrow> (Inr (), st'\<lparr>MyLockedGxact := None\<rparr>))
         else
           (Inr (), (store g ((deref st g)\<lparr>locking_backend := InvalidBackendId\<rparr>) st)
                      \<lparr>MyLockedGxact := None\<rparr>))"

definition AtProcExit_Twophase :: "twophase \<Rightarrow> (error + unit) \<times> twophase" where
  "AtProcExit_Twophase st = AtAbort_Twophase st"

definition PostPrepare_Twophase :: "twophase \<Rightarrow> (error + unit) \<times> twophase" where
  "PostPrepare_Twophase st =
     (case MyLockedGxact st of
        None \<Rightarrow> (Inl MemoryFault, st)
      | Some g \<Rightarrow> (Inr (), (store g ((deref st g)\<lparr>locking_backend := InvalidBackendId\<rparr>) st)
                             \<lparr>MyLockedGxact := None\<rparr>))"

subsection \<open>The snapshot for the catalog view\<close>

text \<open>
  \<^verbatim>\<open>GetPreparedTransactionList\<close> returns the number of copies and stores the array of
  copies (or \<^verbatim>\<open>NULL\<close>) through its argument.
\<close>

definition GetPreparedTransactionList ::
  "twophase \<Rightarrow> nat \<times> GlobalTransactionData list option" where
  "GetPreparedTransactionList st =
     (if numPrepXacts (TwoPhaseState st) = 0 then (0, None)
      else (let num = numPrepXacts (TwoPhaseState st)
            in (num, Some (map (\<lambda>i. deref st (prepXacts (TwoPhaseState st) ! i)) [0 ..< num]))))"

record Working_State =
  array :: "GlobalTransactionData list option"
  ngxacts :: nat
  currIdx :: nat

record prepared_xact_row =
  row_transaction :: TransactionId
  row_gid :: string
  row_prepared :: TimestampTz
  row_ownerid :: Oid
  row_dbid :: Oid

definition form_tuple :: "GlobalTransactionData \<Rightarrow> prepared_xact_row" where
  "form_tuple gxact =
     \<lparr>row_transaction = xid (proc gxact), row_gid = gid gxact, row_prepared = prepared_at gxact,
      row_ownerid = owner gxact, row_dbid = databaseId (proc gxact)\<rparr>"

text \<open>
  One call of \<^verbatim>\<open>pg_prepared_xact\<close> after the first-call set-up: the \<^verbatim>\<open>while\<close> loop
  returns the next row (\<^verbatim>\<open>SRF_RETURN_NEXT\<close>) or reports the end (\<^verbatim>\<open>SRF_RETURN_DONE\<close>).
\<close>

function pg_prepared_xact_percall ::
  "Working_State \<Rightarrow> prepared_xact_row option \<times> Working_State" where
  "pg_prepared_xact_percall status =
     (case array status of
        None \<Rightarrow> (None, status)
      | Some a \<Rightarrow>
         if currIdx status < ngxacts status then
           (let gxact = a ! currIdx status;
                status' = status\<lparr>currIdx := currIdx status + 1\<rparr>
            in if \<not> valid gxact then pg_prepared_xact_percall status'
               else (Some (form_tuple gxact), status'))
         else (None, status))"
  by pat_completeness auto
termination
  by (relation "measure (\<lambda>s. ngxacts s - currIdx s)") auto

text \<open>
  The set-returning protocol: the executor calls the function until it reports the end.
  The rows of the view are the values returned on the way.
\<close>

fun srf_rows :: "nat \<Rightarrow> Working_State \<Rightarrow> prepared_xact_row list option" where
  "srf_rows 0 status = None"
| "srf_rows (Suc fuel) status =
     (case pg_prepared_xact_percall status of
        (None, status') \<Rightarrow> Some []
      | (Some row, status') \<Rightarrow> map_option (\<lambda>rows. row # rows) (srf_rows fuel status'))"

definition pg_prepared_xact_first_call :: "twophase \<Rightarrow> Working_State" where
  "pg_prepared_xact_first_call st =
     \<lparr>array = snd (GetPreparedTransactionList st),
      ngxacts = fst (GetPreparedTransactionList st),
      currIdx = 0\<rparr>"

subsection \<open>The checkpoint list and the oldest prepare LSN\<close>

record prpt_map =
  map_xid :: TransactionId
  xlogrecptr :: XLogRecPtr

text \<open>
  \<^verbatim>\<open>prepared_transaction_agg_state\<close>: a count and a palloc0'd array with room for
  \<^verbatim>\<open>maxCount\<close> entries, of which the first \<open>count\<close> are in use.
\<close>

record prepared_transaction_agg_state =
  ptas_count :: nat
  ptas_maps :: "prpt_map list"

definition zero_map :: prpt_map where
  "zero_map = \<lparr>map_xid = 0, xlogrecptr = zero_lsn\<rparr>"

definition ptas_entries :: "prepared_transaction_agg_state \<Rightarrow> prpt_map list" where
  "ptas_entries ptas = map (\<lambda>i. ptas_maps ptas ! i) [0 ..< ptas_count ptas]"

definition TwoPhaseAddPreparedTransactionInit :: "prepared_transaction_agg_state \<times> nat" where
  "TwoPhaseAddPreparedTransactionInit = (\<lparr>ptas_count = 0, ptas_maps = replicate 10 zero_map\<rparr>, 10)"

definition TwoPhaseAddPreparedTransaction ::
  "prepared_transaction_agg_state \<times> nat \<Rightarrow> TransactionId \<Rightarrow> XLogRecPtr
     \<Rightarrow> error + prepared_transaction_agg_state \<times> nat" where
  "TwoPhaseAddPreparedTransaction pm xid' xlogPtr =
     (let ptas = fst pm; maxCount = snd pm; count = ptas_count ptas in
      if \<not> maxCount > 0 then Inl AssertFailure
      else if \<not> count \<le> maxCount then Inl AssertFailure
      else
        (let grown = (count = maxCount);
             maxCount' = (if grown then maxCount * 2 else maxCount);
             arr = (if grown
                    then map (\<lambda>i. ptas_maps ptas ! i) [0 ..< count] @ replicate (maxCount' - count) zero_map
                    else ptas_maps ptas)
         in Inr (\<lparr>ptas_count = count + 1,
                   ptas_maps = arr[count := \<lparr>map_xid = xid', xlogrecptr = xlogPtr\<rparr>]\<rparr>,
                 maxCount')))"

fun collect_prepared ::
  "twophase \<Rightarrow> GlobalTransaction list \<Rightarrow> prepared_transaction_agg_state \<times> nat
     \<Rightarrow> error + prepared_transaction_agg_state \<times> nat" where
  "collect_prepared st [] pm = Inr pm"
| "collect_prepared st (p # ps) pm =
     (if valid (deref st p) = False then collect_prepared st ps pm
      else (case TwoPhaseAddPreparedTransaction pm (xid (proc (deref st p)))
                   (prepare_begin_lsn (deref st p)) of
              Inl err \<Rightarrow> Inl err
            | Inr pm' \<Rightarrow> collect_prepared st ps pm'))"

definition getTwoPhasePreparedTransactionData ::
  "twophase \<Rightarrow> error + prepared_transaction_agg_state" where
  "getTwoPhasePreparedTransactionData st =
     (case collect_prepared st (resident st) TwoPhaseAddPreparedTransactionInit of
        Inl err \<Rightarrow> Inl err
      | Inr pm \<Rightarrow> Inr (fst pm))"

text \<open>
  \<^verbatim>\<open>XLByteLE\<close> (access/xlogdefs.h, outside the files at hand): the order of WAL
  positions, log file number first, then the offset within it.
\<close>

definition XLByteLE :: "XLogRecPtr \<Rightarrow> XLogRecPtr \<Rightarrow> bool" where
  "XLByteLE a b = (xlogid a < xlogid b \<or> (xlogid a = xlogid b \<and> xrecoff a \<le> xrecoff b))"

fun oldest_scan :: "prpt_map list \<Rightarrow> XLogRecPtr \<Rightarrow> XLogRecPtr" where
  "oldest_scan [] oldest = oldest"
| "oldest_scan (m # ms) oldest =
     oldest_scan ms (if XLByteLE (xlogrecptr m) oldest then xlogrecptr m else oldest)"

text \<open>The result is the position pointed to, \<open>None\<close> for the \<^verbatim>\<open>NULL\<close> pointer.\<close>

definition getTwoPhaseOldestPreparedTransactionXLogRecPtr ::
  "prepared_transaction_agg_state \<Rightarrow> XLogRecPtr option" where
  "getTwoPhaseOldestPreparedTransactionXLogRecPtr ptas =
     (if ptas_count ptas > 0
      then Some (oldest_scan (map (\<lambda>i. ptas_maps ptas ! i) [1 ..< ptas_count ptas])
                   (xlogrecptr (ptas_maps ptas ! 0)))
      else None)"

subsection \<open>Notions used in the statements\<close>

text \<open>The subtransaction cache as its readers see it: \<^verbatim>\<open>subxids.xids[0 .. nxids - 1]\<close>.\<close>

definition cached_subxids :: "GlobalTransactionData \<Rightarrow> TransactionId list" where
  "cached_subxids gx = take (nat (subxids_nxids (proc gx))) (subxids_xids (proc gx))"

text \<open>The rows the view owes for the copies \<open>a[i .. n - 1]\<close>: one per valid copy, in order.\<close>

definition view_rows :: "GlobalTransactionData list \<Rightarrow> nat \<Rightarrow> nat \<Rightarrow> prepared_xact_row list" where
  "view_rows a i n = map form_tuple (filter valid (map (\<lambda>j. a ! j) [i ..< n]))"

text \<open>The allocation invariant of the checkpoint list: room for \<open>maxCount\<close> entries.\<close>

definition ptas_ok :: "prepared_transaction_agg_state \<times> nat \<Rightarrow> bool" where
  "ptas_ok pm = (0 < snd pm \<and> ptas_count (fst pm) \<le> snd pm \<and> length (ptas_maps (fst pm)) = snd pm)"

definition checkpoint_entry :: "twophase \<Rightarrow> GlobalTransaction \<Rightarrow> prpt_map" where
  "checkpoint_entry st p =
     \<lparr>map_xid = xid (proc (deref st p)), xlogrecptr = prepare_begin_lsn (deref st p)\<rparr>"

section \<open>The write-ahead log and the commit log, as twophase.c uses them\<close>

text \<open>
  \<^verbatim>\<open>XLogInsert\<close> appends a record and returns the position after it;
  \<^verbatim>\<open>XLogLastInsertBeginLoc\<close> is where the last inserted record begins;
  \<^verbatim>\<open>XLogReadRecord\<close> finds the record that begins at a position, or \<^verbatim>\<open>NULL\<close>;
  \<^verbatim>\<open>XLogRecGetData\<close> gives a record's data. Only a PREPARE record's data is kept as
  bytes here, so another kind of record is answered like a record without data.
\<close>

definition XLogInsert :: "env \<Rightarrow> xlog_record \<Rightarrow> twophase \<Rightarrow> XLogRecPtr \<times> twophase" where
  "XLogInsert e r st =
     (snd (XLogInsert_position e (xlog st) r),
      st\<lparr>xlog := xlog st @ [(fst (XLogInsert_position e (xlog st) r), r)]\<rparr>)"

definition XLogLastInsertBeginLoc :: "twophase \<Rightarrow> XLogRecPtr" where
  "XLogLastInsertBeginLoc st = fst (last (xlog st))"

definition XLogReadRecord :: "twophase \<Rightarrow> XLogRecPtr \<Rightarrow> xlog_record option" where
  "XLogReadRecord st ptr = map_of (xlog st) ptr"

definition XLogRecGetData :: "xlog_record \<Rightarrow> byte list option" where
  "XLogRecGetData r = (case r of XLOG_XACT_PREPARE buf \<Rightarrow> Some buf | _ \<Rightarrow> None)"

text \<open>
  Modelled from the spec: the commit log (access/transam.c and clog.c are not among the
  files at hand) stores per XID whether it is committed, aborted or in progress. The
  newest entry for an XID counts; an XID without entry is in progress.
\<close>

definition clog_status :: "twophase \<Rightarrow> TransactionId \<Rightarrow> XidStatus" where
  "clog_status st x =
     (case map_of (clog st) x of None \<Rightarrow> TRANSACTION_STATUS_IN_PROGRESS | Some s \<Rightarrow> s)"

definition TransactionIdDidCommit :: "twophase \<Rightarrow> TransactionId \<Rightarrow> bool" where
  "TransactionIdDidCommit st x = (clog_status st x = TRANSACTION_STATUS_COMMITTED)"

definition TransactionIdDidAbort :: "twophase \<Rightarrow> TransactionId \<Rightarrow> bool" where
  "TransactionIdDidAbort st x = (clog_status st x = TRANSACTION_STATUS_ABORTED)"

definition TransactionIdCommitTree :: "TransactionId \<Rightarrow> TransactionId list \<Rightarrow> twophase \<Rightarrow> twophase" where
  "TransactionIdCommitTree x children st =
     st\<lparr>clog := map (\<lambda>y. (y, TRANSACTION_STATUS_COMMITTED)) (x # children) @ clog st\<rparr>"

definition TransactionIdAbortTree :: "TransactionId \<Rightarrow> TransactionId list \<Rightarrow> twophase \<Rightarrow> twophase" where
  "TransactionIdAbortTree x children st =
     st\<lparr>clog := map (\<lambda>y. (y, TRANSACTION_STATUS_ABORTED)) (x # children) @ clog st\<rparr>"

definition DistributedLog_SetCommittedTree ::
  "TransactionId \<Rightarrow> TransactionId list \<Rightarrow> twophase \<Rightarrow> twophase" where
  "DistributedLog_SetCommittedTree x children st =
     st\<lparr>distributedLog := distributedLog st @ (x # children)\<rparr>"

text \<open>
  \<^verbatim>\<open>ProcArrayRemove\<close> takes the dummy proc out of the process array. Its second argument,
  the latest XID of the transaction tree, only feeds the array's own bookkeeping.
\<close>

definition ProcArrayRemove :: "GlobalTransaction \<Rightarrow> twophase \<Rightarrow> twophase" where
  "ProcArrayRemove g st = st\<lparr>procArray := removeAll g (procArray st)\<rparr>"

text \<open>Every fork of every listed relation is unlinked: \<^verbatim>\<open>smgrdounlink(srel, fork, ...)\<close>.\<close>

definition unlink_rels :: "env \<Rightarrow> RelFileNode list \<Rightarrow> twophase \<Rightarrow> twophase" where
  "unlink_rels e rels st =
     st\<lparr>unlinked := unlinked st @ concat (map (\<lambda>r. map (\<lambda>f. (r, f)) [0 ..< Suc (MAX_FORKNUM e)]) rels)\<rparr>"

section \<open>The state file: assembly\<close>

subsection \<open>Bytes\<close>

text \<open>
  Integers in memory, least significant byte first: \<open>le_bytes n w\<close> is the \<open>n\<close>-byte
  image of \<open>w\<close>, \<open>le_word\<close> reads one back.
\<close>

fun le_bytes :: "nat \<Rightarrow> 'a::len word \<Rightarrow> byte list" where
  "le_bytes 0 w = []"
| "le_bytes (Suc n) w = ucast w # le_bytes n (drop_bit 8 w)"

fun le_word :: "byte list \<Rightarrow> 'a::len word" where
  "le_word [] = 0"
| "le_word (b # bs) = ucast b OR push_bit 8 (le_word bs)"

definition rd32 :: "byte list \<Rightarrow> nat \<Rightarrow> uint32" where
  "rd32 buf off = le_word (take 4 (drop off buf))"

definition rd16 :: "byte list \<Rightarrow> nat \<Rightarrow> uint16" where
  "rd16 buf off = le_word (take 2 (drop off buf))"

definition rd64 :: "byte list \<Rightarrow> nat \<Rightarrow> 64 word" where
  "rd64 buf off = le_word (take 8 (drop off buf))"

text \<open>A value assigned to a \<^verbatim>\<open>uint32\<close>.\<close>

definition u32 :: "int \<Rightarrow> int" where
  "u32 n = n mod 4294967296"

text \<open>
  Modelled from the spec: \<^verbatim>\<open>MAXALIGN\<close> (c.h is not among the files at hand) rounds a
  length up to the platform's maximum-alignment boundary, which is 8 bytes here.
\<close>

definition MAXALIGN :: "int \<Rightarrow> int" where
  "MAXALIGN len = ((len + 7) div 8) * 8"

definition TWOPHASE_MAGIC :: uint32 where
  "TWOPHASE_MAGIC = 0x57F94531"

record TwoPhaseFileHeader =
  hdr_magic :: uint32
  hdr_total_len :: uint32
  hdr_xid :: TransactionId
  hdr_database :: Oid
  hdr_prepared_at :: TimestampTz
  hdr_owner :: Oid
  hdr_nsubxacts :: int32
  hdr_ncommitrels :: int32
  hdr_nabortrels :: int32
  hdr_gid :: string

text \<open>
  The header as it lies in memory (240 bytes, no padding between the fields). The GID
  field is filled by \<^verbatim>\<open>StrNCpy\<close>: at most 199 characters, then zero bytes up to 200.
\<close>

definition gid_bytes :: "string \<Rightarrow> byte list" where
  "gid_bytes g = map of_char (take (GIDSIZE - 1) g) @ replicate (GIDSIZE - length (take (GIDSIZE - 1) g)) 0"

definition hdr_bytes :: "TwoPhaseFileHeader \<Rightarrow> byte list" where
  "hdr_bytes h =
     le_bytes 4 (hdr_magic h) @ le_bytes 4 (hdr_total_len h) @ le_bytes 4 (hdr_xid h)
     @ le_bytes 4 (hdr_database h) @ le_bytes 8 (hdr_prepared_at h) @ le_bytes 4 (hdr_owner h)
     @ le_bytes 4 (hdr_nsubxacts h) @ le_bytes 4 (hdr_ncommitrels h)
     @ le_bytes 4 (hdr_nabortrels h) @ gid_bytes (hdr_gid h)"

definition hdr_of_bytes :: "byte list \<Rightarrow> TwoPhaseFileHeader" where
  "hdr_of_bytes buf =
     \<lparr>hdr_magic = rd32 buf 0, hdr_total_len = rd32 buf 4, hdr_xid = rd32 buf 8,
      hdr_database = rd32 buf 12, hdr_prepared_at = rd64 buf 16, hdr_owner = rd32 buf 24,
      hdr_nsubxacts = rd32 buf 28, hdr_ncommitrels = rd32 buf 32, hdr_nabortrels = rd32 buf 36,
      hdr_gid = map (\<lambda>b. char_of (unat b)) (takeWhile (\<lambda>b. b \<noteq> 0) (take GIDSIZE (drop 40 buf)))\<rparr>"

definition xids_bytes :: "TransactionId list \<Rightarrow> byte list" where
  "xids_bytes xs = concat (map (le_bytes 4) xs)"

definition rel_bytes :: "RelFileNode \<Rightarrow> byte list" where
  "rel_bytes r = le_bytes 4 (spcNode r) @ le_bytes 4 (dbNode r) @ le_bytes 4 (relNode r)"

definition rels_bytes :: "RelFileNode list \<Rightarrow> byte list" where
  "rels_bytes rs = concat (map rel_bytes rs)"

text \<open>
  \<^verbatim>\<open>TwoPhaseRecordOnDisk\<close> in memory (8 bytes): \<open>len\<close>, \<open>rmid\<close>, one byte of padding that
  nobody writes, \<open>info\<close>.
\<close>

definition record_bytes :: "byte \<Rightarrow> int \<Rightarrow> TwoPhaseRmgrId \<Rightarrow> uint16 \<Rightarrow> byte list" where
  "record_bytes pad len rmid info =
     le_bytes 4 (word_of_int len :: uint32) @ [rmid, pad] @ le_bytes 2 info"

subsection \<open>Appending to the chain\<close>

text \<open>The bytes \<^verbatim>\<open>XLogInsert\<close> takes from the chain: the used part of every block, in order.\<close>

definition chain_bytes :: "xllist \<Rightarrow> byte list" where
  "chain_bytes r = concat (blocks r)"

text \<open>
  \<^verbatim>\<open>save_state_data(data, len)\<close>. \<open>data\<close> is the object the pointer refers to and
  \<open>len\<close> the \<^verbatim>\<open>uint32\<close> argument. \<^verbatim>\<open>palloc\<close> refuses a request above
  \<^verbatim>\<open>MaxAllocSize\<close>. A \<^verbatim>\<open>memcpy\<close> that would read past \<open>data\<close> or write past the free
  part of the tail block is a memory fault; so is a tail pointer that is \<^verbatim>\<open>NULL\<close>.
\<close>

definition save_state_data :: "env \<Rightarrow> byte list \<Rightarrow> int \<Rightarrow> xllist \<Rightarrow> error + xllist" where
  "save_state_data e data len r =
     (let padlen = u32 (MAXALIGN len) in
      if blocks r = [] then Inl MemoryFault
      else
        (case (if padlen > bytes_free r
               then (if max padlen 512 > MaxAllocSize e then Inl InvalidAllocSize
                     else Inr (r\<lparr>blocks := blocks r @ [[]], bytes_free := max padlen 512\<rparr>))
               else Inr r) of
           Inl err \<Rightarrow> Inl err
         | Inr r1 \<Rightarrow>
            if len > bytes_free r1 \<or> len > int (length data) then Inl MemoryFault
            else
              (let pos = length (chain_bytes r1);
                   seg = take (nat padlen)
                           (take (nat len) data @ map (junk e) [pos + nat len ..< pos + nat padlen])
               in Inr (r1\<lparr>blocks := butlast (blocks r1) @ [last (blocks r1) @ seg],
                         bytes_free := bytes_free r1 - padlen,
                         total_len := u32 (total_len r1 + padlen)\<rparr>))))"

definition RegisterTwoPhaseRecord ::
  "env \<Rightarrow> TwoPhaseRmgrId \<Rightarrow> uint16 \<Rightarrow> byte list \<Rightarrow> int \<Rightarrow> xllist \<Rightarrow> error + xllist" where
  "RegisterTwoPhaseRecord e rmid info data len r =
     (case save_state_data e
             (record_bytes (junk e (length (chain_bytes r) + 5)) len rmid info) 8 r of
        Inl err \<Rightarrow> Inl err
      | Inr r1 \<Rightarrow> if len > 0 then save_state_data e data len r1 else Inr r1)"

text \<open>
  \<^verbatim>\<open>StartPrepare\<close>. The committed children and the pending deletes come from xact.c and
  the storage manager (\<^verbatim>\<open>xactGetCommittedChildren\<close>, \<^verbatim>\<open>smgrGetPendingDeletes\<close>) and are
  arguments here; each count is the \<^verbatim>\<open>int32\<close> the header stores.
\<close>

definition count32 :: "'a list \<Rightarrow> int32" where
  "count32 xs = of_nat (length xs)"

definition StartPrepare ::
  "env \<Rightarrow> GlobalTransaction \<Rightarrow> TransactionId list \<Rightarrow> RelFileNode list \<Rightarrow> RelFileNode list
     \<Rightarrow> twophase \<Rightarrow> (error + unit) \<times> twophase" where
  "StartPrepare e g children commitrels abortrels st =
     (let gxact = deref st g;
          hdr = \<lparr>hdr_magic = TWOPHASE_MAGIC, hdr_total_len = 0, hdr_xid = xid (proc gxact),
                 hdr_database = databaseId (proc gxact), hdr_prepared_at = prepared_at gxact,
                 hdr_owner = owner gxact, hdr_nsubxacts = count32 children,
                 hdr_ncommitrels = count32 commitrels, hdr_nabortrels = count32 abortrels,
                 hdr_gid = gid gxact\<rparr>;
          r0 = \<lparr>blocks = [[]], bytes_free = max 240 512, total_len = 0\<rparr>
      in if max 240 512 > MaxAllocSize e then (Inl InvalidAllocSize, st)
         else
           (case save_state_data e (hdr_bytes hdr) 240 r0 of
              Inl err \<Rightarrow> (Inl err, st\<lparr>records := r0\<rparr>)
            | Inr r1 \<Rightarrow>
               (case (if sint (hdr_nsubxacts hdr) > 0
                      then save_state_data e (xids_bytes children) (u32 (sint (hdr_nsubxacts hdr) * 4)) r1
                      else Inr r1) of
                  Inl err \<Rightarrow> (Inl err, st\<lparr>records := r1\<rparr>)
                | Inr r2 \<Rightarrow>
                   (let st2 = (if sint (hdr_nsubxacts hdr) > 0
                               then GXactLoadSubxactData e g (sint (hdr_nsubxacts hdr)) children st
                               else st)
                    in case (if sint (hdr_ncommitrels hdr) > 0
                             then save_state_data e (rels_bytes commitrels)
                                    (u32 (sint (hdr_ncommitrels hdr) * 12)) r2
                             else Inr r2) of
                         Inl err \<Rightarrow> (Inl err, st2\<lparr>records := r2\<rparr>)
                       | Inr r3 \<Rightarrow>
                          (case (if sint (hdr_nabortrels hdr) > 0
                                 then save_state_data e (rels_bytes abortrels)
                                        (u32 (sint (hdr_nabortrels hdr) * 12)) r3
                                 else Inr r3) of
                             Inl err \<Rightarrow> (Inl err, st2\<lparr>records := r3\<rparr>)
                           | Inr r4 \<Rightarrow> (Inr (), st2\<lparr>records := r4\<rparr>))))))"

text \<open>
  The first part of \<^verbatim>\<open>EndPrepare\<close>, up to the length check: the end sentinel is
  registered and \<^verbatim>\<open>total_len\<close> is written into the header at the start of the head
  block (bytes 4 to 7). On the length error the chain stays as it is then.
\<close>

definition patch_total_len :: "int \<Rightarrow> byte list \<Rightarrow> byte list" where
  "patch_total_len n b = take 4 b @ le_bytes 4 (word_of_int n :: uint32) @ drop 8 b"

definition EndPrepare_assemble :: "env \<Rightarrow> xllist \<Rightarrow> (error + unit) \<times> xllist" where
  "EndPrepare_assemble e r =
     (case RegisterTwoPhaseRecord e (TWOPHASE_RM_END_ID e) 0 [] 0 r of
        Inl err \<Rightarrow> (Inl err, r)
      | Inr r1 \<Rightarrow>
         (case blocks r1 of
            [] \<Rightarrow> (Inl MemoryFault, r1)
          | b # bs \<Rightarrow>
             if rd32 b 0 \<noteq> TWOPHASE_MAGIC then (Inl AssertFailure, r1)
             else
               (let total = u32 (total_len r1 + 4);
                    r2 = r1\<lparr>blocks := patch_total_len total b # bs\<rparr>
                in if total > MaxAllocSize e then (Inl LimitExceeded, r2) else (Inr (), r2))))"

text \<open>The recovery map: \<^verbatim>\<open>hash_search\<close> with \<^verbatim>\<open>HASH_ENTER\<close> and with \<^verbatim>\<open>HASH_REMOVE\<close>.\<close>

fun map_enter :: "TransactionId \<Rightarrow> XLogRecPtr \<Rightarrow> (TransactionId \<times> XLogRecPtr) list
    \<Rightarrow> (TransactionId \<times> XLogRecPtr) list" where
  "map_enter x m [] = [(x, m)]"
| "map_enter x m ((k, v) # kvs) = (if k = x then (k, m) # kvs else (k, v) # map_enter x m kvs)"

definition add_recover_post_checkpoint_prepared_transactions_map_entry ::
  "TransactionId \<Rightarrow> XLogRecPtr \<Rightarrow> twophase \<Rightarrow> twophase" where
  "add_recover_post_checkpoint_prepared_transactions_map_entry x m st =
     st\<lparr>prepared_map_ht :=
          Some (map_enter x m (case prepared_map_ht st of None \<Rightarrow> [] | Some kvs \<Rightarrow> kvs))\<rparr>"

definition remove_recover_post_checkpoint_prepared_transactions_map_entry ::
  "TransactionId \<Rightarrow> twophase \<Rightarrow> twophase" where
  "remove_recover_post_checkpoint_prepared_transactions_map_entry x st =
     (case prepared_map_ht st of
        None \<Rightarrow> st
      | Some kvs \<Rightarrow> st\<lparr>prepared_map_ht := Some (filter (\<lambda>kv. fst kv \<noteq> x) kvs)\<rparr>)"

text \<open>
  \<^verbatim>\<open>EndPrepare\<close>: the assembly above, then the PREPARE record goes to the WAL inside a
  critical section, the recovery map learns its position, and the slot becomes valid.
\<close>

definition EndPrepare :: "env \<Rightarrow> GlobalTransaction \<Rightarrow> twophase \<Rightarrow> (error + unit) \<times> twophase" where
  "EndPrepare e g st =
     (case EndPrepare_assemble e (records st) of
        (Inl err, r) \<Rightarrow> (Inl err, st\<lparr>records := r\<rparr>)
      | (Inr u, r) \<Rightarrow>
         (let xid' = xid (proc (deref st g));
              st1 = st\<lparr>records := r, CritSectionCount := CritSectionCount st + 1,
                       MyProc_inCommit := True\<rparr>;
              (recptr, st2) = XLogInsert e (XLOG_XACT_PREPARE (chain_bytes r)) st1;
              st3 = store g ((deref st2 g)\<lparr>prepare_lsn := recptr,
                                           prepare_begin_lsn := XLogLastInsertBeginLoc st2\<rparr>) st2;
              st4 = add_recover_post_checkpoint_prepared_transactions_map_entry xid'
                      (prepare_begin_lsn (deref st3 g)) st3
          in if Debug_abort_after_segment_prepared e then (Inl Panic, st4)
             else
               (case MarkAsPrepared g st4 of
                  (Inl err, st5) \<Rightarrow> (Inl err, st5)
                | (Inr u', st5) \<Rightarrow>
                   (let st6 = st5\<lparr>MyLockedGxact := Some g,
                                  CritSectionCount := CritSectionCount st5 - 1,
                                  MyProc_inCommit := False\<rparr>
                    in if xrecoff (prepare_lsn (deref st6 g)) = 0 then (Inl AssertFailure, st6)
                       else (Inr (), st6\<lparr>records := (records st6)\<lparr>blocks := []\<rparr>\<rparr>)))))"

section \<open>The state file: reading\<close>

text \<open>
  The walk over the header area that opens \<^verbatim>\<open>FinishPreparedTransaction\<close> (and
  \<^verbatim>\<open>RecoverPreparedTransactions\<close>): the arrays follow the header at aligned offsets and
  \<open>bufptr\<close> ends up at the first record. A count below zero sends the pointer backwards,
  out of the buffer, and an array that ends past the buffer is read past its end: both are
  memory faults.
\<close>

record disassembled =
  d_hdr :: TwoPhaseFileHeader
  d_children :: "TransactionId list"
  d_commitrels :: "RelFileNode list"
  d_abortrels :: "RelFileNode list"
  d_bufptr :: "byte list"

definition read_xids :: "byte list \<Rightarrow> nat \<Rightarrow> nat \<Rightarrow> TransactionId list" where
  "read_xids buf off n = map (\<lambda>i. rd32 buf (off + 4 * i)) [0 ..< n]"

definition read_rels :: "byte list \<Rightarrow> nat \<Rightarrow> nat \<Rightarrow> RelFileNode list" where
  "read_rels buf off n =
     map (\<lambda>i. \<lparr>spcNode = rd32 buf (off + 12 * i), dbNode = rd32 buf (off + 12 * i + 4),
                relNode = rd32 buf (off + 12 * i + 8)\<rparr>) [0 ..< n]"

definition disassemble :: "byte list \<Rightarrow> error + disassembled" where
  "disassemble buf =
     (if length buf < 240 then Inl MemoryFault
      else
        (let hdr = hdr_of_bytes buf;
             nsub = sint (hdr_nsubxacts hdr);
             ncommit = sint (hdr_ncommitrels hdr);
             nabort = sint (hdr_nabortrels hdr);
             o1 = MAXALIGN 240;
             o2 = o1 + MAXALIGN (nsub * 4);
             o3 = o2 + MAXALIGN (ncommit * 12);
             o4 = o3 + MAXALIGN (nabort * 12)
         in if nsub < 0 \<or> ncommit < 0 \<or> nabort < 0 \<or> int (length buf) < o4 then Inl MemoryFault
            else Inr \<lparr>d_hdr = hdr,
                      d_children = read_xids buf (nat o1) (nat nsub),
                      d_commitrels = read_rels buf (nat o2) (nat ncommit),
                      d_abortrels = read_rels buf (nat o3) (nat nabort),
                      d_bufptr = drop (nat o4) buf\<rparr>))"

text \<open>
  \<^verbatim>\<open>ProcessRecords\<close>. \<open>callbacks\<close> tells which entries of the table are not \<^verbatim>\<open>NULL\<close>;
  the result lists the calls made, in order. Reading a record header, or handing a
  callback data, beyond the end of the buffer is a memory fault.
\<close>

function ProcessRecords ::
  "env \<Rightarrow> byte list \<Rightarrow> TransactionId \<Rightarrow> (TwoPhaseRmgrId \<Rightarrow> bool) \<Rightarrow> error + callback_call list" where
  "ProcessRecords e bufptr xid' callbacks =
     (if length bufptr < 8 then Inl MemoryFault
      else
        (let len = rd32 bufptr 0; rmid = bufptr ! 4; info = rd16 bufptr 6 in
         if \<not> rmid \<le> TWOPHASE_RM_MAX_ID e then Inl AssertFailure
         else if rmid = TWOPHASE_RM_END_ID e then Inr []
         else
           (let body = drop 8 bufptr in
            if callbacks rmid \<and> length body < unat len then Inl MemoryFault
            else
              (case ProcessRecords e (drop (nat (MAXALIGN (uint len))) body) xid' callbacks of
                 Inl err \<Rightarrow> Inl err
               | Inr calls \<Rightarrow>
                  Inr ((if callbacks rmid
                        then [\<lparr>call_rmid = rmid, call_xid = xid', call_info = info,
                                call_data = take (unat len) body, call_len = len\<rparr>]
                        else []) @ calls)))))"
  by pat_completeness auto
termination
  by (relation "measure (\<lambda>(e, bufptr, x, c). length bufptr)") auto

declare ProcessRecords.simps [simp del]

subsection \<open>Notions used in the statements about the state file\<close>

text \<open>
  What \<^verbatim>\<open>save_state_data\<close> appends at stream position \<open>pos\<close>: the first \<open>len\<close> bytes of
  the data, then the padding (whatever the block held there) up to the aligned length.
\<close>

definition padded :: "env \<Rightarrow> nat \<Rightarrow> byte list \<Rightarrow> int \<Rightarrow> byte list" where
  "padded e pos data len =
     take (nat len) data @ map (junk e) [pos + nat len ..< pos + nat (MAXALIGN len)]"

text \<open>What one \<^verbatim>\<open>RegisterTwoPhaseRecord\<close> appends: the record header, then the padded data.\<close>

definition record_seg ::
  "env \<Rightarrow> nat \<Rightarrow> TwoPhaseRmgrId \<Rightarrow> uint16 \<Rightarrow> byte list \<Rightarrow> int \<Rightarrow> byte list" where
  "record_seg e pos rmid info data len =
     record_bytes (junk e (pos + 5)) len rmid info
     @ (if len > 0 then padded e (pos + 8) data len else [])"

text \<open>
  A resource manager's record as it is registered: the manager's id, the flag bits and
  the data, whose length is passed as \<open>len\<close>.
\<close>

record twophase_record =
  rec_rmid :: TwoPhaseRmgrId
  rec_info :: uint16
  rec_data :: "byte list"

text \<open>A sequence of \<^verbatim>\<open>RegisterTwoPhaseRecord\<close> calls; the first error ends it.\<close>

fun register_records :: "env \<Rightarrow> twophase_record list \<Rightarrow> xllist \<Rightarrow> error + xllist" where
  "register_records e [] r = Inr r"
| "register_records e (x # xs) r =
     (case RegisterTwoPhaseRecord e (rec_rmid x) (rec_info x) (rec_data x)
             (int (length (rec_data x))) r of
        Inl err \<Rightarrow> Inl err
      | Inr r' \<Rightarrow> register_records e xs r')"


text \<open>The sum of the aligned lengths of the segments a list of records takes.\<close>

definition records_size :: "twophase_record list \<Rightarrow> int" where
  "records_size recs =
     (\<Sum>x \<leftarrow> recs. 8 + (if rec_data x = [] then 0 else MAXALIGN (int (length (rec_data x)))))"

text \<open>The bytes a sequence of records takes in the stream, from position \<open>pos\<close> on.\<close>

fun records_stream :: "env \<Rightarrow> nat \<Rightarrow> twophase_record list \<Rightarrow> byte list" where
  "records_stream e pos [] = []"
| "records_stream e pos (x # xs) =
     record_seg e pos (rec_rmid x) (rec_info x) (rec_data x) (int (length (rec_data x)))
     @ records_stream e
         (pos + length (record_seg e pos (rec_rmid x) (rec_info x) (rec_data x) (int (length (rec_data x))))) xs"

text \<open>The header \<^verbatim>\<open>StartPrepare\<close> builds for slot \<open>g\<close> (\<^verbatim>\<open>total_len\<close> still zero).\<close>

definition start_hdr ::
  "twophase \<Rightarrow> GlobalTransaction \<Rightarrow> TransactionId list \<Rightarrow> RelFileNode list \<Rightarrow> RelFileNode list
     \<Rightarrow> TwoPhaseFileHeader" where
  "start_hdr st g children commitrels abortrels =
     \<lparr>hdr_magic = TWOPHASE_MAGIC, hdr_total_len = 0, hdr_xid = xid (proc (deref st g)),
      hdr_database = databaseId (proc (deref st g)), hdr_prepared_at = prepared_at (deref st g),
      hdr_owner = owner (deref st g), hdr_nsubxacts = count32 children,
      hdr_ncommitrels = count32 commitrels, hdr_nabortrels = count32 abortrels,
      hdr_gid = gid (deref st g)\<rparr>"

text \<open>
  The sum of the aligned lengths of every segment of a state file: the header, the three
  arrays, the records and the end sentinel.
\<close>

definition payload_size ::
  "TransactionId list \<Rightarrow> RelFileNode list \<Rightarrow> RelFileNode list \<Rightarrow> twophase_record list \<Rightarrow> int" where
  "payload_size children commitrels abortrels recs =
     240 + MAXALIGN (int (length children) * 4) + MAXALIGN (int (length commitrels) * 12)
     + MAXALIGN (int (length abortrels) * 12) + records_size recs + 8"

section \<open>Finishing a prepared transaction\<close>

text \<open>
  \<^verbatim>\<open>RecordTransactionCommitPrepared\<close>: the commit record goes to the WAL, then the
  distributed log and the commit log are marked.
\<close>

definition RecordTransactionCommitPrepared ::
  "env \<Rightarrow> TransactionId \<Rightarrow> string \<Rightarrow> TransactionId list \<Rightarrow> RelFileNode list \<Rightarrow> twophase
     \<Rightarrow> (error + unit) \<times> twophase" where
  "RecordTransactionCommitPrepared e xid' gid' children rels st =
     (if \<not> MyProc_inCommit st then (Inl AssertFailure, st)
      else
        (let (recptr, st1) = XLogInsert e (XLOG_XACT_COMMIT_PREPARED xid' rels children) st;
             st2 = DistributedLog_SetCommittedTree xid' children st1;
             st3 = TransactionIdCommitTree xid' children st2
         in (Inr (), st3)))"

text \<open>
  \<^verbatim>\<open>RecordTransactionAbortPrepared\<close>: a transaction the commit log already shows
  committed is a \<^verbatim>\<open>PANIC\<close>, raised before anything is written.
\<close>

definition RecordTransactionAbortPrepared ::
  "env \<Rightarrow> TransactionId \<Rightarrow> TransactionId list \<Rightarrow> RelFileNode list \<Rightarrow> twophase
     \<Rightarrow> (error + unit) \<times> twophase" where
  "RecordTransactionAbortPrepared e xid' children rels st =
     (if TransactionIdDidCommit st xid' then (Inl Panic, st)
      else
        (let st0 = st\<lparr>CritSectionCount := CritSectionCount st + 1\<rparr>;
             (recptr, st1) = XLogInsert e (XLOG_XACT_ABORT_PREPARED xid' rels children) st0;
             st2 = TransactionIdAbortTree xid' children st1;
             st3 = st2\<lparr>CritSectionCount := CritSectionCount st2 - 1\<rparr>
         in if xrecoff recptr = 0 then (Inl AssertFailure, st3) else (Inr (), st3)))"

text \<open>
  \<^verbatim>\<open>FinishPreparedTransaction\<close>. An \<^verbatim>\<open>elog(ERROR)\<close> raised inside the critical section
  is a \<^verbatim>\<open>PANIC\<close>. The statistics counters are not represented.
\<close>

definition FinishPreparedTransaction ::
  "env \<Rightarrow> string \<Rightarrow> bool \<Rightarrow> bool \<Rightarrow> twophase \<Rightarrow> (error + bool) \<times> twophase" where
  "FinishPreparedTransaction e gid' isCommit raiseErrorIfNotFound st =
     (case LockGXact e gid' (GetUserId e) raiseErrorIfNotFound st of
        (Inl err, st1) \<Rightarrow> (Inl err, st1)
      | (Inr None, st1) \<Rightarrow>
          if \<not> raiseErrorIfNotFound then (Inr False, st1) else (Inl MemoryFault, st1)
      | (Inr (Some g), st1) \<Rightarrow>
         (let xid' = xid (proc (deref st1 g));
              tfXLogRecPtr = prepare_begin_lsn (deref st1 g)
          in case XLogReadRecord st1 tfXLogRecPtr of
               None \<Rightarrow> (Inl CorruptWal, st1)
             | Some tfRecord \<Rightarrow>
                (case XLogRecGetData tfRecord of
                   None \<Rightarrow> (Inl CorruptWal, st1)
                 | Some buf \<Rightarrow>
                    (case disassemble buf of
                       Inl err \<Rightarrow> (Inl err, st1)
                     | Inr d \<Rightarrow>
                        if hdr_xid (d_hdr d) \<noteq> xid' then (Inl AssertFailure, st1)
                        else
                          (let st2 = st1\<lparr>CritSectionCount := CritSectionCount st1 + 1,
                                          MyProc_inCommit := True\<rparr>
                           in case (if isCommit
                                    then RecordTransactionCommitPrepared e xid' gid'
                                           (d_children d) (d_commitrels d) st2
                                    else RecordTransactionAbortPrepared e xid'
                                           (d_children d) (d_abortrels d) st2) of
                                (Inl err, st3) \<Rightarrow> (Inl err, st3)
                              | (Inr u, st3) \<Rightarrow>
                                 (let st4 = ProcArrayRemove g st3;
                                      st5 = store g ((deref st4 g)\<lparr>valid := False\<rparr>) st4;
                                      st6 = unlink_rels e
                                              (if isCommit then d_commitrels d else d_abortrels d) st5
                                  in case ProcessRecords e (d_bufptr d) xid'
                                            (if isCommit then twophase_postcommit_callbacks e
                                             else twophase_postabort_callbacks e) of
                                       Inl err \<Rightarrow> (Inl err, st6)
                                     | Inr calls \<Rightarrow>
                                        (let st7 = st6\<lparr>callback_log := callback_log st6 @ calls\<rparr>;
                                             st8 = remove_recover_post_checkpoint_prepared_transactions_map_entry xid' st7
                                         in case RemoveGXact g st8 of
                                              (Inl err, st9) \<Rightarrow> (Inl Panic, st9)
                                            | (Inr u', st9) \<Rightarrow>
                                               (Inr True,
                                                st9\<lparr>MyLockedGxact := None,
                                                    MyProc_inCommit := False,
                                                    CritSectionCount := CritSectionCount st9 - 1\<rparr>))))))))"

section \<open>Recovery: the scan before the prepared transactions are reloaded\<close>

text \<open>
  The loop of \<^verbatim>\<open>PrescanPreparedTransactions\<close> over the subtransaction XIDs of one
  prepared transaction; the last argument is \<^verbatim>\<open>ShmemVariableCache->nextXid\<close>.
\<close>

fun prescan_subxids ::
  "env \<Rightarrow> TransactionId \<Rightarrow> TransactionId list \<Rightarrow> TransactionId \<Rightarrow> error + TransactionId" where
  "prescan_subxids e xid' [] nx = Inr nx"
| "prescan_subxids e xid' (subxid # rest) nx =
     (if \<not> TransactionIdFollows e subxid xid' then Inl AssertFailure
      else prescan_subxids e xid' rest
             (if TransactionIdFollowsOrEquals e subxid nx then TransactionIdAdvance e subxid else nx))"

text \<open>
  The \<^verbatim>\<open>while\<close> loop over the entries of the recovery map. A position without a record
  makes \<^verbatim>\<open>XLogRecGetData\<close> work on \<^verbatim>\<open>NULL\<close>, and a record too short for its header or its
  subtransaction array is read past its end: memory faults.
\<close>

fun prescan_entries ::
  "env \<Rightarrow> (TransactionId \<times> XLogRecPtr) list \<Rightarrow> TransactionId \<Rightarrow> twophase
     \<Rightarrow> (error + TransactionId) \<times> twophase" where
  "prescan_entries e [] result st = (Inr result, st)"
| "prescan_entries e ((k, tfXLogRecPtr) # rest) result st =
     (case XLogReadRecord st tfXLogRecPtr of
        None \<Rightarrow> (Inl MemoryFault, st)
      | Some tfRecord \<Rightarrow>
         (case XLogRecGetData tfRecord of
            None \<Rightarrow> (Inl MemoryFault, st)
          | Some buf \<Rightarrow>
             if length buf < 240 then (Inl MemoryFault, st)
             else
               (let hdr = hdr_of_bytes buf; xid' = hdr_xid hdr in
                if TransactionIdDidCommit st xid' = False \<and> TransactionIdDidAbort st xid' = False
                then
                  (let result' = (if TransactionIdPrecedes e xid' result then xid' else result);
                       n = sint (hdr_nsubxacts hdr)
                   in if 0 < n \<and> int (length buf) < 240 + n * 4 then (Inl MemoryFault, st)
                      else
                        (case prescan_subxids e xid' (read_xids buf 240 (nat n)) (nextXid st) of
                           Inl err \<Rightarrow> (Inl err, st)
                         | Inr nx \<Rightarrow> prescan_entries e rest result' (st\<lparr>nextXid := nx\<rparr>)))
                else prescan_entries e rest result st)))"

definition PrescanPreparedTransactions :: "env \<Rightarrow> twophase \<Rightarrow> (error + TransactionId) \<times> twophase" where
  "PrescanPreparedTransactions e st =
     (case prepared_map_ht st of
        None \<Rightarrow> (Inr (nextXid st), st)
      | Some entries \<Rightarrow> prescan_entries e entries (nextXid st) st)"

section \<open>What the recovery scan is expected to compute\<close>

text \<open>
  The entries of the recovery map as a list, in the order the hash scan yields them, and
  what a PREPARE record at a WAL position says: the XID in its header and the
  subtransaction XIDs behind the header, if the record is there and long enough.
\<close>

definition recovery_entries :: "twophase \<Rightarrow> (TransactionId \<times> XLogRecPtr) list" where
  "recovery_entries st = (case prepared_map_ht st of None \<Rightarrow> [] | Some entries \<Rightarrow> entries)"

definition prepare_record_at ::
  "twophase \<Rightarrow> XLogRecPtr \<Rightarrow> (TransactionId \<times> TransactionId list) option" where
  "prepare_record_at st ptr =
     (case XLogReadRecord st ptr of
        None \<Rightarrow> None
      | Some r \<Rightarrow>
         (case XLogRecGetData r of
            None \<Rightarrow> None
          | Some buf \<Rightarrow>
             if length buf < 240
                \<or> int (length buf) < 240 + sint (hdr_nsubxacts (hdr_of_bytes buf)) * 4
             then None
             else Some (hdr_xid (hdr_of_bytes buf),
                        read_xids buf 240 (nat (sint (hdr_nsubxacts (hdr_of_bytes buf)))))))"

definition in_doubt :: "twophase \<Rightarrow> TransactionId \<Rightarrow> bool" where
  "in_doubt st x = (TransactionIdDidCommit st x = False \<and> TransactionIdDidAbort st x = False)"

text \<open>The prepared transactions of the map that are neither committed nor aborted.\<close>

fun pending_xacts ::
  "twophase \<Rightarrow> (TransactionId \<times> XLogRecPtr) list \<Rightarrow> (TransactionId \<times> TransactionId list) list" where
  "pending_xacts st [] = []"
| "pending_xacts st ((k, ptr) # rest) =
     (case prepare_record_at st ptr of
        None \<Rightarrow> pending_xacts st rest
      | Some (x, subs) \<Rightarrow>
          if in_doubt st x then (x, subs) # pending_xacts st rest else pending_xacts st rest)"

fun running_min :: "env \<Rightarrow> TransactionId list \<Rightarrow> TransactionId \<Rightarrow> TransactionId" where
  "running_min e [] r = r"
| "running_min e (x # xs) r = running_min e xs (if TransactionIdPrecedes e x r then x else r)"

fun advance_past :: "env \<Rightarrow> TransactionId list \<Rightarrow> TransactionId \<Rightarrow> TransactionId" where
  "advance_past e [] nx = nx"
| "advance_past e (s # ss) nx =
     advance_past e ss (if TransactionIdFollowsOrEquals e s nx then TransactionIdAdvance e s else nx)"

section \<open>Concrete registries\<close>

text \<open>
  Small concrete inputs on which the theorems below are instantiated: a registry with room
  for four slots, three transactions prepared at the WAL positions 200, 100 and 300, a
  fourth one reserved but not yet valid, and one locked for finishing.
\<close>

text \<open>
  The XID comparisons of the example environment are the ones of PostgreSQL's transam.c:
  permanent XIDs (below 3) compare as unsigned numbers, normal ones modulo \<open>2 ^ 32\<close>.
\<close>

definition xid_precedes :: "TransactionId \<Rightarrow> TransactionId \<Rightarrow> bool" where
  "xid_precedes id1 id2 = (if id1 < 3 \<or> id2 < 3 then id1 < id2 else sint (id1 - id2) < 0)"

definition xid_follows :: "TransactionId \<Rightarrow> TransactionId \<Rightarrow> bool" where
  "xid_follows id1 id2 = (if id1 < 3 \<or> id2 < 3 then id1 > id2 else sint (id1 - id2) > 0)"

definition xid_follows_or_equals :: "TransactionId \<Rightarrow> TransactionId \<Rightarrow> bool" where
  "xid_follows_or_equals id1 id2 = (if id1 < 3 \<or> id2 < 3 then id1 \<ge> id2 else sint (id1 - id2) \<ge> 0)"

definition xid_advance :: "TransactionId \<Rightarrow> TransactionId" where
  "xid_advance dest = (if dest + 1 < 3 then 3 else dest + 1)"

text \<open>The WAL of the examples hands out positions 100 apart.\<close>

definition example_position ::
  "(XLogRecPtr \<times> xlog_record) list \<Rightarrow> xlog_record \<Rightarrow> XLogRecPtr \<times> XLogRecPtr" where
  "example_position log r =
     (\<lparr>xlogid = 0, xrecoff = of_nat (100 * (length log + 1))\<rparr>,
      \<lparr>xlogid = 0, xrecoff = of_nat (100 * (length log + 2))\<rparr>)"

text \<open>
  Callback tables shaped like those of twophase_rmgr.c: no callback for the end marker,
  and some resource managers without a post-abort or a recover callback.
\<close>

definition example_postcommit :: "TwoPhaseRmgrId \<Rightarrow> bool" where
  "example_postcommit r = (r \<noteq> 0)"

definition example_postabort :: "TwoPhaseRmgrId \<Rightarrow> bool" where
  "example_postabort r = (r \<noteq> 0 \<and> r \<noteq> 2)"

definition example_recover :: "TwoPhaseRmgrId \<Rightarrow> bool" where
  "example_recover r = (r = 1)"

definition no_superuser :: "Oid \<Rightarrow> bool" where
  "no_superuser u = False"

definition example_junk :: "nat \<Rightarrow> byte" where
  "example_junk i = 255"

definition env0 :: env where
  "env0 = \<lparr>max_prepared_xacts = 4, MaxBackends = 10, MyBackendId = 1, MyDatabaseId = 7,
            Gp_role_is_execute = False, GetUserId = 1, superuser_arg = no_superuser,
            PGPROC_MAX_CACHED_SUBXIDS = 2, MaxAllocSize = 1073741823,
            TWOPHASE_RM_END_ID = 0, TWOPHASE_RM_MAX_ID = 5, MAX_FORKNUM = 2,
            twophase_postcommit_callbacks = example_postcommit,
            twophase_postabort_callbacks = example_postabort,
            twophase_recover_callbacks = example_recover,
            TransactionIdPrecedes = xid_precedes, TransactionIdFollows = xid_follows,
            TransactionIdFollowsOrEquals = xid_follows_or_equals,
            TransactionIdAdvance = xid_advance,
            XLogInsert_position = example_position,
            Debug_abort_after_segment_prepared = False,
            junk = example_junk\<rparr>"

definition st_blank :: twophase where
  "st_blank = \<lparr>TwoPhaseState = \<lparr>freeGXacts = None, numPrepXacts = 0, prepXacts = []\<rparr>,
       gxacts = [], procArray = [], nextXid = 200,
       MyLockedGxact = None, twophaseExitRegistered = False,
       records = \<lparr>blocks = [], bytes_free = 0, total_len = 0\<rparr>,
       prepared_map_ht = None, MyProc_inCommit = False, CritSectionCount = 0,
       xlog = [], clog = [], distributedLog = [], unlinked = [], callback_log = []\<rparr>"

definition env_other :: env where
  "env_other = env0\<lparr>MyBackendId := 2\<rparr>"

definition lsn :: "nat \<Rightarrow> XLogRecPtr" where
  "lsn n = \<lparr>xlogid = 0, xrecoff = of_nat n\<rparr>"

definition example_prepare ::
  "TransactionId \<Rightarrow> string \<Rightarrow> XLogRecPtr \<Rightarrow> twophase \<Rightarrow> twophase" where
  "example_prepare x g l st =
     (let (r1, st1) = MarkAsPreparing env0 x g 1000 1 7 (Some l) st;
          (r2, st2) = MarkAsPrepared (case r1 of Inr p \<Rightarrow> p | Inl err \<Rightarrow> 0) st1;
          (r3, st3) = PostPrepare_Twophase st2
      in st3)"

definition st_three :: twophase where
  "st_three = example_prepare 103 ''gxc'' (lsn 300)
                (example_prepare 101 ''gxa'' (lsn 100)
                  (example_prepare 102 ''gxb'' (lsn 200) (TwoPhaseShmemInit env0 st_blank)))"

definition st_reserving :: twophase where
  "st_reserving = snd (MarkAsPreparing env0 104 ''gxd'' 1000 1 7 None st_three)"

definition st_locked_by_other :: twophase where
  "st_locked_by_other = (snd (LockGXact env_other ''gxa'' 1 True st_three))\<lparr>MyLockedGxact := None\<rparr>"

definition st_locked_by_me :: twophase where
  "st_locked_by_me = snd (LockGXact env0 ''gxa'' 1 True st_three)"

text \<open>
  A state file for the reservation of \<open>gxd\<close>: two children, one file to drop on commit,
  and two resource-manager records, the second for a manager (rmid 2) that has no post-abort
  callback in the example tables.
\<close>

definition ex_rel :: RelFileNode where
  "ex_rel = \<lparr>spcNode = 1, dbNode = 2, relNode = 3\<rparr>"

definition ex_recs :: "twophase_record list" where
  "ex_recs = [\<lparr>rec_rmid = 1, rec_info = 7, rec_data = [0xAA, 0xBB]\<rparr>,
              \<lparr>rec_rmid = 2, rec_info = 0, rec_data = [0xCC]\<rparr>]"

definition ex_started :: twophase where
  "ex_started = snd (StartPrepare env0 0 [105, 106] [ex_rel] [] st_reserving)"

definition ex_registered :: xllist where
  "ex_registered = projr (register_records env0 ex_recs (records ex_started))"

definition ex_assembled :: xllist where
  "ex_assembled = snd (EndPrepare_assemble env0 ex_registered)"




text \<open>
  Four records of \<open>2 ^ 30 - 8\<close> bytes each (a \<^verbatim>\<open>palloc\<close> of that size is allowed). The
  data is never looked at, only its length.
\<close>

definition big_data :: "byte list" where
  "big_data = replicate 1073741816 0"

definition big_rec :: twophase_record where
  "big_rec = \<lparr>rec_rmid = 1, rec_info = 0, rec_data = big_data\<rparr>"

definition big_recs :: "twophase_record list" where
  "big_recs = [big_rec, big_rec, big_rec, big_rec]"


text \<open>
  The fourth transaction prepared for good: its state file assembled, written to the WAL
  and its slot released. Then the same state with the commit log showing its XID committed,
  and the state at the end of replay after a crash, where the WAL has evidence of XID 104
  but not of its subtransactions 105 and 106.
\<close>

definition st_prepared :: twophase where
  "st_prepared =
     snd (PostPrepare_Twophase (snd (EndPrepare env0 0 (ex_started\<lparr>records := ex_registered\<rparr>))))"

definition st_committed :: twophase where
  "st_committed = st_prepared\<lparr>clog := [(104, TRANSACTION_STATUS_COMMITTED)]\<rparr>"

definition st_replayed :: twophase where
  "st_replayed = st_prepared\<lparr>nextXid := 105\<rparr>"
section \<open>Properties\<close>

subsection \<open>Pointers and the live array\<close>

lemma resident_length: "length (resident st) = numPrepXacts (TwoPhaseState st)"
  by (simp add: resident_def)

lemma deref_store: "g < length (gxacts st) \<Longrightarrow> deref (store g v st) g = v"
  by (simp add: deref_def store_def)

lemma deref_store_other: "q \<noteq> g \<Longrightarrow> deref (store g v st) q = deref st q"
  by (simp add: deref_def store_def)

lemma resident_store [simp]: "resident (store g v st) = resident st"
  by (simp add: resident_def store_def)

lemma deref_exit_registered [simp]: "deref (st\<lparr>twophaseExitRegistered := b\<rparr>) p = deref st p"
  by (simp add: deref_def)

lemma resident_exit_registered [simp]: "resident (st\<lparr>twophaseExitRegistered := b\<rparr>) = resident st"
  by (simp add: resident_def)

subsection \<open>Loading the subtransaction cache\<close>

text \<open>
  Claim C9. \<^verbatim>\<open>GXactLoadSubxactData\<close>, called on a slot as \<^verbatim>\<open>MarkAsPreparing\<close> leaves it
  (empty cache) with \<open>nsubxacts\<close> the number of children: with more than
  \<^verbatim>\<open>PGPROC_MAX_CACHED_SUBXIDS\<close> children the overflow flag is set and the cache holds exactly
  the first \<^verbatim>\<open>PGPROC_MAX_CACHED_SUBXIDS\<close> of them; with at most that many the cache holds
  all of them and the overflow flag keeps its value (false after \<^verbatim>\<open>MarkAsPreparing\<close>).
\<close>

theorem GXactLoadSubxactData_caps:
  assumes "nsubxacts = int (length children)"
    and "g < length (gxacts st)"
    and "subxids_nxids (proc (deref st g)) = 0"
  shows "(length children > PGPROC_MAX_CACHED_SUBXIDS e \<longrightarrow>
            subxids_overflowed (proc (deref (GXactLoadSubxactData e g nsubxacts children st) g))
          \<and> cached_subxids (deref (GXactLoadSubxactData e g nsubxacts children st) g)
              = take (PGPROC_MAX_CACHED_SUBXIDS e) children)
       \<and> (length children \<le> PGPROC_MAX_CACHED_SUBXIDS e \<longrightarrow>
            subxids_overflowed (proc (deref (GXactLoadSubxactData e g nsubxacts children st) g))
              = subxids_overflowed (proc (deref st g))
          \<and> cached_subxids (deref (GXactLoadSubxactData e g nsubxacts children st) g) = children)"
  using assms
  by (auto simp: GXactLoadSubxactData_def Let_def deref_store cached_subxids_def)

text \<open>
  On the slot reserved for \<open>gxd\<close> (cache of two): three children overflow and leave the
  first two cached; one child is cached whole and the flag stays false.
\<close>

theorem GXactLoadSubxactData_caps_witness:
  "subxids_overflowed (proc (deref (GXactLoadSubxactData env0 0 3 [105, 106, 107] st_reserving) 0))
   \<and> cached_subxids (deref (GXactLoadSubxactData env0 0 3 [105, 106, 107] st_reserving) 0) = [105, 106]
   \<and> \<not> subxids_overflowed (proc (deref (GXactLoadSubxactData env0 0 1 [105] st_reserving) 0))
   \<and> cached_subxids (deref (GXactLoadSubxactData env0 0 1 [105] st_reserving) 0) = [105]"
proof -
  have g: "0 < length (gxacts st_reserving)" by code_simp
  have n: "subxids_nxids (proc (deref st_reserving 0)) = 0" by code_simp
  have f: "\<not> subxids_overflowed (proc (deref st_reserving 0))" by code_simp
  have m: "PGPROC_MAX_CACHED_SUBXIDS env0 = 2" by (simp add: env0_def)
  have a: "(3::int) = int (length [105, 106, 107 :: TransactionId])" by simp
  have b: "(1::int) = int (length [105 :: TransactionId])" by simp
  show ?thesis
    using GXactLoadSubxactData_caps [OF a g n, of env0]
      GXactLoadSubxactData_caps [OF b g n, of env0] f m
    by simp
qed

subsection \<open>The checkpoint list and the oldest prepare LSN\<close>

lemma add_ok:
  assumes "ptas_ok pm"
  shows "\<exists>pm'. TwoPhaseAddPreparedTransaction pm x l = Inr pm' \<and> ptas_ok pm'
           \<and> ptas_entries (fst pm') = ptas_entries (fst pm) @ [\<lparr>map_xid = x, xlogrecptr = l\<rparr>]"
  using assms
  by (auto simp: TwoPhaseAddPreparedTransaction_def ptas_ok_def Let_def ptas_entries_def nth_append
        intro!: nth_equalityI)

lemma collect_ok:
  assumes "ptas_ok pm"
  shows "\<exists>pm'. collect_prepared st ps pm = Inr pm' \<and> ptas_ok pm'
           \<and> ptas_entries (fst pm') = ptas_entries (fst pm)
               @ map (checkpoint_entry st)
                   (filter (\<lambda>p. valid (deref st p)) ps)"
  using assms
proof (induction ps arbitrary: pm)
  case Nil
  then show ?case by simp
next
  case (Cons p ps)
  show ?case
  proof (cases "valid (deref st p)")
    case False
    then show ?thesis using Cons by simp
  next
    case True
    from add_ok [OF Cons.prems] obtain pm1 where
      a: "TwoPhaseAddPreparedTransaction pm (xid (proc (deref st p))) (prepare_begin_lsn (deref st p)) = Inr pm1"
      and b: "ptas_ok pm1"
      and c: "ptas_entries (fst pm1) = ptas_entries (fst pm) @ [checkpoint_entry st p]"
      unfolding checkpoint_entry_def by blast
    from Cons.IH [OF b] True a c show ?thesis by auto
  qed
qed

lemma XLByteLE_refl: "XLByteLE a a"
  by (simp add: XLByteLE_def)

lemma XLByteLE_trans: "XLByteLE a b \<Longrightarrow> XLByteLE b c \<Longrightarrow> XLByteLE a c"
  by (auto simp: XLByteLE_def)

lemma XLByteLE_total: "\<not> XLByteLE a b \<Longrightarrow> XLByteLE b a"
  by (auto simp: XLByteLE_def)

lemma oldest_scan_min:
  "XLByteLE (oldest_scan ms l) l \<and> (\<forall>m \<in> set ms. XLByteLE (oldest_scan ms l) (xlogrecptr m))
   \<and> (oldest_scan ms l = l \<or> oldest_scan ms l \<in> xlogrecptr ` set ms)"
proof (induction ms arbitrary: l)
  case Nil
  then show ?case by (simp add: XLByteLE_refl)
next
  case (Cons m ms)
  let ?l' = "if XLByteLE (xlogrecptr m) l then xlogrecptr m else l"
  have ih: "XLByteLE (oldest_scan ms ?l') ?l'"
    "\<forall>k \<in> set ms. XLByteLE (oldest_scan ms ?l') (xlogrecptr k)"
    "oldest_scan ms ?l' = ?l' \<or> oldest_scan ms ?l' \<in> xlogrecptr ` set ms"
    using Cons.IH [of ?l'] by blast+
  have l1: "XLByteLE ?l' l" by (simp add: XLByteLE_refl)
  have l2: "XLByteLE ?l' (xlogrecptr m)" by (auto simp: XLByteLE_refl dest: XLByteLE_total)
  show ?case
    using ih l1 l2 by (auto intro: XLByteLE_trans)
qed

lemma entries_nonempty:
  "0 < ptas_count ptas \<Longrightarrow>
     ptas_entries ptas = (ptas_maps ptas ! 0) # map (\<lambda>i. ptas_maps ptas ! i) [1 ..< ptas_count ptas]"
  by (simp add: ptas_entries_def upt_conv_Cons)

lemma oldest_result:
  "(ptas_entries ptas = [] \<longrightarrow> getTwoPhaseOldestPreparedTransactionXLogRecPtr ptas = None)
   \<and> (ptas_entries ptas \<noteq> [] \<longrightarrow>
        (\<exists>l. getTwoPhaseOldestPreparedTransactionXLogRecPtr ptas = Some l
            \<and> l \<in> xlogrecptr ` set (ptas_entries ptas)
            \<and> (\<forall>m \<in> set (ptas_entries ptas). XLByteLE l (xlogrecptr m))))"
proof (cases "0 < ptas_count ptas")
  case False
  then show ?thesis
    by (simp add: getTwoPhaseOldestPreparedTransactionXLogRecPtr_def ptas_entries_def)
next
  case True
  note e = entries_nonempty [OF True]
  let ?ms = "map (\<lambda>i. ptas_maps ptas ! i) [1 ..< ptas_count ptas]"
  let ?l0 = "xlogrecptr (ptas_maps ptas ! 0)"
  from oldest_scan_min [of ?ms ?l0] True e show ?thesis
    by (auto simp: getTwoPhaseOldestPreparedTransactionXLogRecPtr_def)
qed

text \<open>
  Claim C2. The list \<^verbatim>\<open>getTwoPhasePreparedTransactionData\<close> builds holds exactly the pairs
  (xid, prepare_begin_lsn) of the resident slots with \<open>valid\<close> set, in array order, the
  others being skipped; and \<^verbatim>\<open>getTwoPhaseOldestPreparedTransactionXLogRecPtr\<close> returns
  \<^verbatim>\<open>NULL\<close> on the empty list and otherwise an entry's LSN that is \<^verbatim>\<open>XLByteLE\<close> every
  entry's LSN: the minimum.
\<close>

theorem checkpoint_list_and_oldest:
  "\<exists>ptas. getTwoPhasePreparedTransactionData st = Inr ptas
     \<and> ptas_entries ptas =
         map (checkpoint_entry st) (filter (\<lambda>p. valid (deref st p)) (resident st))
     \<and> (ptas_entries ptas = [] \<longrightarrow> getTwoPhaseOldestPreparedTransactionXLogRecPtr ptas = None)
     \<and> (ptas_entries ptas \<noteq> [] \<longrightarrow>
          (\<exists>l. getTwoPhaseOldestPreparedTransactionXLogRecPtr ptas = Some l
              \<and> l \<in> xlogrecptr ` set (ptas_entries ptas)
              \<and> (\<forall>m \<in> set (ptas_entries ptas). XLByteLE l (xlogrecptr m))))"
proof -
  have ok0: "ptas_ok TwoPhaseAddPreparedTransactionInit"
    by (simp add: ptas_ok_def TwoPhaseAddPreparedTransactionInit_def)
  have e0: "ptas_entries (fst TwoPhaseAddPreparedTransactionInit) = []"
    by (simp add: ptas_entries_def TwoPhaseAddPreparedTransactionInit_def)
  from collect_ok [OF ok0, of st "resident st"] e0 obtain pm' where
    a: "collect_prepared st (resident st) TwoPhaseAddPreparedTransactionInit = Inr pm'"
    and c: "ptas_entries (fst pm') =
         map (checkpoint_entry st) (filter (\<lambda>p. valid (deref st p)) (resident st))"
    by auto
  have "getTwoPhasePreparedTransactionData st = Inr (fst pm')"
    by (simp add: getTwoPhasePreparedTransactionData_def a)
  with c oldest_result [of "fst pm'"] show ?thesis by blast
qed

text \<open>
  Three transactions prepared at 200, 100 and 300 and a fourth slot not yet valid: the list
  has the three, and the oldest position is 100.
\<close>

theorem checkpoint_list_and_oldest_witness:
  "\<exists>ptas. getTwoPhasePreparedTransactionData st_reserving = Inr ptas
     \<and> ptas_entries ptas =
          [\<lparr>map_xid = 102, xlogrecptr = lsn 200\<rparr>, \<lparr>map_xid = 101, xlogrecptr = lsn 100\<rparr>,
           \<lparr>map_xid = 103, xlogrecptr = lsn 300\<rparr>]
     \<and> getTwoPhaseOldestPreparedTransactionXLogRecPtr ptas = Some (lsn 100)"
proof -
  have f: "map (checkpoint_entry st_reserving)
             (filter (\<lambda>p. valid (deref st_reserving p)) (resident st_reserving))
           = [\<lparr>map_xid = 102, xlogrecptr = lsn 200\<rparr>, \<lparr>map_xid = 101, xlogrecptr = lsn 100\<rparr>,
              \<lparr>map_xid = 103, xlogrecptr = lsn 300\<rparr>]"
    by code_simp
  from checkpoint_list_and_oldest [of st_reserving] obtain ptas where
    a: "getTwoPhasePreparedTransactionData st_reserving = Inr ptas"
    and b: "ptas_entries ptas =
         map (checkpoint_entry st_reserving)
           (filter (\<lambda>p. valid (deref st_reserving p)) (resident st_reserving))"
    and c: "ptas_entries ptas \<noteq> [] \<longrightarrow>
          (\<exists>l. getTwoPhaseOldestPreparedTransactionXLogRecPtr ptas = Some l
              \<and> l \<in> xlogrecptr ` set (ptas_entries ptas)
              \<and> (\<forall>m \<in> set (ptas_entries ptas). XLByteLE l (xlogrecptr m)))"
    by blast
  from c b f obtain l where
    l: "getTwoPhaseOldestPreparedTransactionXLogRecPtr ptas = Some l"
    and m: "l \<in> {lsn 200, lsn 100, lsn 300}"
    and le: "XLByteLE l (lsn 100)"
    by auto
  from m le have "l = lsn 100" by (auto simp: XLByteLE_def lsn_def)
  with a b f l show ?thesis by auto
qed

subsection \<open>The catalog view\<close>

lemma view_rows_step:
  "i < n \<Longrightarrow> view_rows a i n = (if valid (a ! i) then [form_tuple (a ! i)] else []) @ view_rows a (Suc i) n"
  by (simp add: view_rows_def upt_conv_Cons)

lemma view_rows_done: "\<not> i < n \<Longrightarrow> view_rows a i n = []"
  by (simp add: view_rows_def)

lemma percall_spec:
  "array s = Some a \<Longrightarrow>
     (case pg_prepared_xact_percall s of
        (None, s') \<Rightarrow> view_rows a (currIdx s) (ngxacts s) = []
      | (Some r, s') \<Rightarrow> array s' = Some a \<and> ngxacts s' = ngxacts s \<and> currIdx s < currIdx s'
            \<and> currIdx s < ngxacts s
            \<and> view_rows a (currIdx s) (ngxacts s) = r # view_rows a (currIdx s') (ngxacts s))"
proof (induction s rule: pg_prepared_xact_percall.induct)
  case (1 status)
  show ?case
  proof (cases "currIdx status < ngxacts status")
    case False
    then show ?thesis using 1(2) by (simp add: view_rows_done)
  next
    case True
    note lt = this
    let ?s' = "status\<lparr>currIdx := currIdx status + 1\<rparr>"
    show ?thesis
    proof (cases "valid (a ! currIdx status)")
      case True
      then show ?thesis using 1(2) lt
        by (simp add: view_rows_step Let_def)
    next
      case False
      have ih: "case pg_prepared_xact_percall ?s' of
                  (None, s') \<Rightarrow> view_rows a (currIdx ?s') (ngxacts ?s') = []
                | (Some r, s') \<Rightarrow> array s' = Some a \<and> ngxacts s' = ngxacts ?s' \<and> currIdx ?s' < currIdx s'
                    \<and> currIdx ?s' < ngxacts ?s'
                    \<and> view_rows a (currIdx ?s') (ngxacts ?s') = r # view_rows a (currIdx s') (ngxacts ?s')"
        using 1(1) [OF 1(2) lt refl refl] False 1(2) by simp
      have eq: "pg_prepared_xact_percall status = pg_prepared_xact_percall ?s'"
        using 1(2) lt False by (subst pg_prepared_xact_percall.simps) (simp add: Let_def)
      have vr: "view_rows a (currIdx status) (ngxacts status) = view_rows a (Suc (currIdx status)) (ngxacts status)"
        using lt False by (simp add: view_rows_step)
      show ?thesis
        using ih unfolding eq vr
        by (auto split: prod.splits option.splits)
    qed
  qed
qed

lemma srf_rows_spec:
  "array s = Some a \<Longrightarrow> ngxacts s - currIdx s < fuel \<Longrightarrow>
     srf_rows fuel s = Some (view_rows a (currIdx s) (ngxacts s))"
proof (induction fuel arbitrary: s)
  case 0
  then show ?case by simp
next
  case (Suc fuel)
  show ?case
  proof (cases "pg_prepared_xact_percall s")
    case (Pair r s')
    show ?thesis
    proof (cases r)
      case None
      with Pair percall_spec [OF Suc.prems(1)] show ?thesis by simp
    next
      case (Some row)
      with Pair percall_spec [OF Suc.prems(1)] have
        a: "array s' = Some a" and n: "ngxacts s' = ngxacts s" and lt: "currIdx s < currIdx s'"
        and lt2: "currIdx s < ngxacts s"
        and v: "view_rows a (currIdx s) (ngxacts s) = row # view_rows a (currIdx s') (ngxacts s)"
        by simp_all
      have "ngxacts s' - currIdx s' < fuel" using Suc.prems(2) n lt lt2 by arith
      from Suc.IH [OF a this] Pair Some v n show ?thesis by simp
    qed
  qed
qed

lemma srf_rows_none:
  "array s = None \<Longrightarrow> srf_rows (Suc fuel) s = Some []"
  by simp

text \<open>
  Claim C10. \<^verbatim>\<open>GetPreparedTransactionList\<close> copies every resident slot, valid or not
  (\<^verbatim>\<open>NULL\<close> and 0 when there is none); \<^verbatim>\<open>pg_prepared_xact\<close>, called until it reports the
  end, returns one row per copy with \<open>valid\<close> set and none for the others, so a reservation
  that has not reached \<^verbatim>\<open>MarkAsPrepared\<close> has no row in the view. More calls than there
  are resident slots always reach the end.
\<close>

theorem view_hides_unprepared:
  "GetPreparedTransactionList st =
      (numPrepXacts (TwoPhaseState st),
       if numPrepXacts (TwoPhaseState st) = 0 then None else Some (map (deref st) (resident st)))
   \<and> (\<forall>fuel > numPrepXacts (TwoPhaseState st).
        srf_rows fuel (pg_prepared_xact_first_call st)
          = Some (map form_tuple (filter valid (map (deref st) (resident st)))))"
proof (cases "numPrepXacts (TwoPhaseState st) = 0")
  case True
  have r: "resident st = []" using True by (simp add: resident_def)
  have "\<And>fuel. fuel > 0 \<Longrightarrow> srf_rows fuel (pg_prepared_xact_first_call st) = Some []"
  proof -
    fix fuel :: nat assume "fuel > 0"
    then obtain k where "fuel = Suc k" by (cases fuel) auto
    then show "srf_rows fuel (pg_prepared_xact_first_call st) = Some []"
      using True by (simp add: pg_prepared_xact_first_call_def GetPreparedTransactionList_def)
  qed
  then show ?thesis using True r by (simp add: GetPreparedTransactionList_def)
next
  case False
  let ?a = "map (deref st) (resident st)"
  let ?s = "pg_prepared_xact_first_call st"
  have g: "GetPreparedTransactionList st = (numPrepXacts (TwoPhaseState st), Some ?a)"
    using False by (simp add: GetPreparedTransactionList_def Let_def resident_def)
  have a: "array ?s = Some ?a" and n: "ngxacts ?s = numPrepXacts (TwoPhaseState st)" and c: "currIdx ?s = 0"
    by (simp_all add: pg_prepared_xact_first_call_def g)
  have len: "length ?a = numPrepXacts (TwoPhaseState st)" by (simp add: resident_def)
  have "map (\<lambda>j. ?a ! j) [0 ..< numPrepXacts (TwoPhaseState st)] = ?a"
    using len by (metis map_nth)
  then have v: "view_rows ?a 0 (numPrepXacts (TwoPhaseState st)) = map form_tuple (filter valid ?a)"
    by (simp add: view_rows_def)
  have "\<And>fuel. fuel > numPrepXacts (TwoPhaseState st) \<Longrightarrow> srf_rows fuel ?s = Some (map form_tuple (filter valid ?a))"
    using srf_rows_spec [OF a] n c v by simp
  then show ?thesis using g False by simp
qed

text \<open>Four resident slots, the last one reserved only: four copies, three rows.\<close>

theorem view_hides_unprepared_witness:
  "fst (GetPreparedTransactionList st_reserving) = 4
   \<and> map_option (map gid) (snd (GetPreparedTransactionList st_reserving))
        = Some [''gxb'', ''gxa'', ''gxc'', ''gxd'']
   \<and> map_option (map row_gid) (srf_rows 5 (pg_prepared_xact_first_call st_reserving))
        = Some [''gxb'', ''gxa'', ''gxc'']"
proof -
  have n: "numPrepXacts (TwoPhaseState st_reserving) = 4" by code_simp
  have g: "map gid (map (deref st_reserving) (resident st_reserving)) = [''gxb'', ''gxa'', ''gxc'', ''gxd'']"
    by code_simp
  have r: "map row_gid (map form_tuple (filter valid (map (deref st_reserving) (resident st_reserving))))
             = [''gxb'', ''gxa'', ''gxc'']"
    by code_simp
  from view_hides_unprepared [of st_reserving] n have
    a: "GetPreparedTransactionList st_reserving = (4, Some (map (deref st_reserving) (resident st_reserving)))"
    and b: "srf_rows 5 (pg_prepared_xact_first_call st_reserving)
          = Some (map form_tuple (filter valid (map (deref st_reserving) (resident st_reserving))))"
    by simp_all
  show ?thesis unfolding a b using g r by simp
qed

subsection \<open>Reserving a GID that is in use\<close>

lemma gid_in_use_iff: "gid_in_use st g ps \<longleftrightarrow> (\<exists>p \<in> set ps. gid (deref st p) = g)"
  by (induction ps) auto

text \<open>
  Claim C5. When a resident slot, valid or not, carries the GID asked for,
  \<^verbatim>\<open>MarkAsPreparing\<close> fails with the duplicate-GID error and the shared state is what it
  was: the free list, the slot array, its count and every field of every slot. (The only
  thing the call leaves behind is the backend's own note that its exit hook is registered.)
  The two side conditions hold of every registry: a stored GID fits \<^verbatim>\<open>char gid[GIDSIZE]\<close>,
  and a registry with a resident slot has a non-zero capacity.
\<close>

theorem MarkAsPreparing_duplicate_gid:
  assumes "p \<in> set (resident st)"
    and "gid (deref st p) = g"
    and "length g < GIDSIZE"
    and "max_prepared_xacts e \<noteq> 0"
  shows "MarkAsPreparing e x g t ow db l st = (Inl DuplicateGid, st\<lparr>twophaseExitRegistered := True\<rparr>)"
proof -
  have "gid_in_use (st\<lparr>twophaseExitRegistered := True\<rparr>) g (resident (st\<lparr>twophaseExitRegistered := True\<rparr>))"
    using assms(1,2) by (auto simp: gid_in_use_iff)
  then show ?thesis
    using assms(3,4) by (simp add: MarkAsPreparing_def Let_def)
qed

text \<open>
  A second reservation of \<open>gxd\<close>, which is reserved but not yet valid, and one of \<open>gxa\<close>,
  which is prepared.
\<close>

theorem MarkAsPreparing_duplicate_gid_witness:
  "MarkAsPreparing env0 105 ''gxd'' 1000 1 7 None st_reserving
     = (Inl DuplicateGid, st_reserving\<lparr>twophaseExitRegistered := True\<rparr>)
   \<and> \<not> valid (deref st_reserving 0)
   \<and> MarkAsPreparing env0 105 ''gxa'' 1000 1 7 None st_three
     = (Inl DuplicateGid, st_three\<lparr>twophaseExitRegistered := True\<rparr>)
   \<and> valid (deref st_three 2)"
proof -
  have a: "0 \<in> set (resident st_reserving)" by code_simp
  have b: "gid (deref st_reserving 0) = ''gxd''" by code_simp
  have c: "length ''gxd'' < GIDSIZE" by (simp add: GIDSIZE_def)
  have d: "max_prepared_xacts env0 \<noteq> 0" by (simp add: env0_def)
  have a': "2 \<in> set (resident st_three)" by code_simp
  have b': "gid (deref st_three 2) = ''gxa''" by code_simp
  have c': "length ''gxa'' < GIDSIZE" by (simp add: GIDSIZE_def)
  have v: "\<not> valid (deref st_reserving 0)" by code_simp
  have v': "valid (deref st_three 2)" by code_simp
  show ?thesis
    using MarkAsPreparing_duplicate_gid [OF a b c d, of 105 1000 1 7 None]
      MarkAsPreparing_duplicate_gid [OF a' b' c' d, of 105 1000 1 7 None] v v'
    by simp
qed

subsection \<open>Locking a slot that is busy\<close>

lemma scan_skip:
  "\<not> (valid (deref st q) \<and> gid (deref st q) = g) \<Longrightarrow>
     LockGXact_scan e g user st (q # ps) = LockGXact_scan e g user st ps"
  by (cases "valid (deref st q)") (simp_all add: Let_def)

lemma scan_hit_busy:
  "valid (deref st q) \<Longrightarrow> gid (deref st q) = g \<Longrightarrow> locking_backend (deref st q) \<noteq> InvalidBackendId \<Longrightarrow>
     LockGXact_scan e g user st (q # ps) = Some (Inl Busy, st)"
  by (simp add: Let_def)

lemma scan_hit_unlocked:
  "valid (deref st q) \<Longrightarrow> gid (deref st q) = g \<Longrightarrow> locking_backend (deref st q) = InvalidBackendId \<Longrightarrow>
     LockGXact_scan e g user st (q # ps) \<noteq> Some (Inl Busy, st')"
  by (simp add: Let_def)

lemma scan_busy:
  assumes "p \<in> set ps"
    and "valid (deref st p)" and "gid (deref st p) = g"
    and "locking_backend (deref st p) \<noteq> InvalidBackendId"
    and "\<forall>q \<in> set ps. gid (deref st q) = g \<longrightarrow> q = p"
  shows "LockGXact_scan e g user st ps = Some (Inl Busy, st)"
  using assms(1,5)
proof (induction ps)
  case Nil
  then show ?case by simp
next
  case (Cons q ps)
  show ?case
  proof (cases "q = p")
    case True
    then show ?thesis using scan_hit_busy [OF assms(2,3,4)] by blast
  next
    case False
    then have "gid (deref st q) \<noteq> g" using Cons.prems(2) by auto
    then have s: "LockGXact_scan e g user st (q # ps) = LockGXact_scan e g user st ps"
      by (simp only: scan_skip simp_thms)
    have "p \<in> set ps" using Cons.prems(1) False by auto
    moreover have "\<forall>q \<in> set ps. gid (deref st q) = g \<longrightarrow> q = p" using Cons.prems(2) by auto
    ultimately show ?thesis unfolding s by (rule Cons.IH)
  qed
qed

lemma scan_busy_only_valid:
  "LockGXact_scan e g user st ps = Some (Inl Busy, st') \<Longrightarrow>
     \<exists>q \<in> set ps. valid (deref st q) \<and> gid (deref st q) = g
        \<and> locking_backend (deref st q) \<noteq> InvalidBackendId"
proof (induction ps)
  case Nil
  then show ?case by simp
next
  case (Cons q ps)
  show ?case
  proof (cases "valid (deref st q) \<and> gid (deref st q) = g")
    case False
    then have "LockGXact_scan e g user st (q # ps) = LockGXact_scan e g user st ps"
      by (rule scan_skip)
    with Cons.prems have "LockGXact_scan e g user st ps = Some (Inl Busy, st')" by (simp only:)
    from Cons.IH [OF this] show ?thesis by auto
  next
    case True
    show ?thesis
    proof (cases "locking_backend (deref st q) = InvalidBackendId")
      case False
      with True show ?thesis by auto
    next
      case l: True
      from scan_hit_unlocked [of st q g e user ps st'] True l Cons.prems have False by blast
      then show ?thesis ..
    qed
  qed
qed

text \<open>
  Claim C7. When the slot that carries the GID (the only one, by the uniqueness of GIDs in
  the registry) is valid and its \<open>locking_backend\<close> is set, \<^verbatim>\<open>LockGXact\<close> fails with the
  busy error and every slot, the array and the free list are what they were. And a busy
  error always comes from a valid resident slot with that GID and a lock holder: a slot that
  is not valid is passed over and never produces it.
\<close>

theorem LockGXact_busy:
  "(p \<in> set (resident st) \<and> valid (deref st p) \<and> gid (deref st p) = g
      \<and> locking_backend (deref st p) \<noteq> InvalidBackendId
      \<and> (\<forall>q \<in> set (resident st). gid (deref st q) = g \<longrightarrow> q = p)
        \<longrightarrow> LockGXact e g user raise st = (Inl Busy, st\<lparr>twophaseExitRegistered := True\<rparr>))
   \<and> (fst (LockGXact e g user raise st) = Inl Busy
        \<longrightarrow> (\<exists>q \<in> set (resident st). valid (deref st q) \<and> gid (deref st q) = g
                \<and> locking_backend (deref st q) \<noteq> InvalidBackendId))"
proof (intro conjI impI)
  let ?st = "st\<lparr>twophaseExitRegistered := True\<rparr>"
  assume a: "p \<in> set (resident st) \<and> valid (deref st p) \<and> gid (deref st p) = g
      \<and> locking_backend (deref st p) \<noteq> InvalidBackendId
      \<and> (\<forall>q \<in> set (resident st). gid (deref st q) = g \<longrightarrow> q = p)"
  have "LockGXact_scan e g user ?st (resident ?st) = Some (Inl Busy, ?st)"
    by (rule scan_busy [where p = p]) (use a in simp_all)
  then show "LockGXact e g user raise st = (Inl Busy, ?st)"
    by (simp add: LockGXact_def Let_def)
next
  let ?st = "st\<lparr>twophaseExitRegistered := True\<rparr>"
  assume b: "fst (LockGXact e g user raise st) = Inl Busy"
  have "\<exists>st'. LockGXact_scan e g user ?st (resident ?st) = Some (Inl Busy, st')"
  proof (cases "LockGXact_scan e g user ?st (resident ?st)")
    case None
    with b show ?thesis by (simp add: LockGXact_def Let_def split: if_split_asm)
  next
    case (Some r)
    obtain res st' where r: "r = (res, st')" by (cases r)
    with Some b show ?thesis by (cases res) (simp_all add: LockGXact_def Let_def)
  qed
  then obtain st' where "LockGXact_scan e g user ?st (resident ?st) = Some (Inl Busy, st')" ..
  from scan_busy_only_valid [OF this]
  show "\<exists>q \<in> set (resident st). valid (deref st q) \<and> gid (deref st q) = g
                \<and> locking_backend (deref st q) \<noteq> InvalidBackendId"
    by simp
qed

text \<open>
  \<open>gxa\<close> is prepared and locked by backend 2: backend 1 gets the busy error. The slot
  reserved for \<open>gxd\<close> is locked by its preparer but not valid: asking for it is answered
  with not-found, and the conclusion of the second half holds of the busy call.
\<close>

theorem LockGXact_busy_witness:
  "LockGXact env0 ''gxa'' 1 True st_locked_by_other
     = (Inl Busy, st_locked_by_other\<lparr>twophaseExitRegistered := True\<rparr>)
   \<and> (\<exists>q \<in> set (resident st_locked_by_other). valid (deref st_locked_by_other q)
         \<and> gid (deref st_locked_by_other q) = ''gxa''
         \<and> locking_backend (deref st_locked_by_other q) \<noteq> InvalidBackendId)
   \<and> fst (LockGXact env0 ''gxd'' 1 True st_reserving) = Inl NotFound"
proof -
  have a: "2 \<in> set (resident st_locked_by_other) \<and> valid (deref st_locked_by_other 2)
      \<and> gid (deref st_locked_by_other 2) = ''gxa''
      \<and> locking_backend (deref st_locked_by_other 2) \<noteq> InvalidBackendId
      \<and> (\<forall>q \<in> set (resident st_locked_by_other). gid (deref st_locked_by_other q) = ''gxa'' \<longrightarrow> q = 2)"
    by code_simp
  have n: "fst (LockGXact env0 ''gxd'' 1 True st_reserving) = Inl NotFound" by code_simp
  from LockGXact_busy [of 2 st_locked_by_other "''gxa''" env0 1 True] a
  have b: "LockGXact env0 ''gxa'' 1 True st_locked_by_other
             = (Inl Busy, st_locked_by_other\<lparr>twophaseExitRegistered := True\<rparr>)"
    by blast
  then have "fst (LockGXact env0 ''gxa'' 1 True st_locked_by_other) = Inl Busy" by simp
  with LockGXact_busy [of 2 st_locked_by_other "''gxa''" env0 1 True]
  have c: "\<exists>q \<in> set (resident st_locked_by_other). valid (deref st_locked_by_other q)
         \<and> gid (deref st_locked_by_other q) = ''gxa''
         \<and> locking_backend (deref st_locked_by_other q) \<noteq> InvalidBackendId"
    by blast
  from b c n show ?thesis by blast
qed

subsection \<open>The abort and exit hook\<close>

lemma RemoveGXact_scan_Some:
  "RemoveGXact_scan g k ps = Some i \<Longrightarrow> k \<le> i \<and> i - k < length ps \<and> ps ! (i - k) = g"
proof (induction ps arbitrary: k)
  case Nil
  then show ?case by simp
next
  case (Cons q ps)
  show ?case
  proof (cases "g = q")
    case True
    then show ?thesis using Cons.prems by simp
  next
    case False
    with Cons.prems have s: "RemoveGXact_scan g (Suc k) ps = Some i" by simp
    from Cons.IH [OF s] have ih: "Suc k \<le> i" "i - Suc k < length ps" "ps ! (i - Suc k) = g"
      by auto
    have e: "i - k = Suc (i - Suc k)" using ih(1) by arith
    show ?thesis using ih False unfolding e by auto
  qed
qed

lemma RemoveGXact_scan_None:
  "RemoveGXact_scan g k ps = None \<Longrightarrow> g \<notin> set ps"
  by (induction ps arbitrary: k) (auto split: if_splits)

lemma swap_remove_set:
  assumes "n \<le> length arr" and "distinct (map (\<lambda>j. arr ! j) [0 ..< n])" and "i < n"
  shows "set (map (\<lambda>j. (arr[i := arr ! (n - 1)]) ! j) [0 ..< n - 1])
           = set (map (\<lambda>j. arr ! j) [0 ..< n]) - {arr ! i}"
proof -
  let ?ys = "arr[i := arr ! (n - 1)]"
  have inj: "\<And>a b. a < n \<Longrightarrow> b < n \<Longrightarrow> arr ! a = arr ! b \<Longrightarrow> a = b"
    using assms(2) by (auto simp: distinct_map inj_on_def)
  have il: "i < length arr" using assms(1,3) by arith
  show ?thesis
  proof (intro set_eqI iffI)
    fix x assume "x \<in> set (map (\<lambda>j. ?ys ! j) [0 ..< n - 1])"
    then obtain j where j: "j < n - 1" "x = ?ys ! j" by auto
    show "x \<in> set (map (\<lambda>j. arr ! j) [0 ..< n]) - {arr ! i}"
    proof (cases "j = i")
      case True
      then have x: "x = arr ! (n - 1)" using j il by simp
      have "arr ! (n - 1) \<noteq> arr ! i"
      proof
        assume "arr ! (n - 1) = arr ! i"
        then have "n - 1 = i" using inj [of "n - 1" i] assms(3) by simp
        then show False using j True by simp
      qed
      moreover have "n - 1 < n" using assms(3) by arith
      ultimately show ?thesis unfolding x by auto
    next
      case False
      then have x: "x = arr ! j" using j by simp
      have "arr ! j \<noteq> arr ! i"
      proof
        assume "arr ! j = arr ! i"
        then have "j = i" using inj [of j i] assms(3) j by simp
        then show False using False by simp
      qed
      moreover have "j < n" using j by arith
      ultimately show ?thesis unfolding x by auto
    qed
  next
    fix x assume "x \<in> set (map (\<lambda>j. arr ! j) [0 ..< n]) - {arr ! i}"
    then have "\<exists>j. j < n \<and> x = arr ! j \<and> j \<noteq> i" by auto
    then obtain j where j: "j < n" "x = arr ! j" "j \<noteq> i" by blast
    show "x \<in> set (map (\<lambda>j. ?ys ! j) [0 ..< n - 1])"
    proof (cases "j = n - 1")
      case True
      then have "i < n - 1" using j assms(3) by arith
      moreover have "?ys ! i = x" using True j il by simp
      ultimately show ?thesis by force
    next
      case False
      then have "j < n - 1" using j by arith
      moreover have "?ys ! j = x" using j by simp
      ultimately show ?thesis by force
    qed
  qed
qed

lemma RemoveGXact_resident:
  assumes "g \<in> set (resident st)" and "distinct (resident st)"
    and "numPrepXacts (TwoPhaseState st) \<le> length (prepXacts (TwoPhaseState st))"
    and "g < length (gxacts st)"
  shows "\<exists>st'. RemoveGXact g st = (Inr (), st')
           \<and> set (resident st') = set (resident st) - {g}
           \<and> numPrepXacts (TwoPhaseState st') = numPrepXacts (TwoPhaseState st) - 1
           \<and> freeGXacts (TwoPhaseState st') = Some g
           \<and> links_next (proc (deref st' g)) = freeGXacts (TwoPhaseState st)
           \<and> MyLockedGxact st' = MyLockedGxact st
           \<and> (\<forall>q. q \<noteq> g \<longrightarrow> deref st' q = deref st q)"
proof -
  let ?tps = "TwoPhaseState st"
  let ?arr = "prepXacts ?tps"
  let ?n = "numPrepXacts ?tps"
  obtain i where i: "RemoveGXact_scan g 0 (resident st) = Some i"
    using assms(1) RemoveGXact_scan_None [of g 0 "resident st"] by (cases "RemoveGXact_scan g 0 (resident st)") auto
  from RemoveGXact_scan_Some [OF i] have il: "i < ?n" and ig0: "resident st ! i = g"
    by (simp_all add: resident_def)
  have ig: "?arr ! i = g" using ig0 il by (simp add: resident_def)
  let ?gx = "deref st g"
  let ?st1 = "store g (?gx\<lparr>proc := (proc ?gx)\<lparr>links_next := freeGXacts ?tps\<rparr>\<rparr>) st"
  let ?st' = "?st1\<lparr>TwoPhaseState := ?tps\<lparr>numPrepXacts := ?n - 1,
                       prepXacts := ?arr[i := ?arr ! (?n - 1)], freeGXacts := Some g\<rparr>\<rparr>"
  have r: "RemoveGXact g st = (Inr (), ?st')"
    by (simp add: RemoveGXact_def i Let_def)
  have d: "distinct (map (\<lambda>j. ?arr ! j) [0 ..< ?n])" using assms(2) by (simp add: resident_def)
  have s: "set (resident ?st') = set (resident st) - {g}"
    using swap_remove_set [OF assms(3) d il] ig by (simp add: resident_def store_def)
  have dg: "deref ?st' g = ?gx\<lparr>proc := (proc ?gx)\<lparr>links_next := freeGXacts ?tps\<rparr>\<rparr>"
    using assms(4) by (simp add: deref_def store_def)
  have other: "\<forall>q. q \<noteq> g \<longrightarrow> deref ?st' q = deref st q"
    by (simp add: deref_def store_def)
  have m: "MyLockedGxact ?st' = MyLockedGxact st" by (simp add: store_def)
  show ?thesis
    using r s dg other m by (intro exI [of _ ?st']) (simp add: store_def)
qed

text \<open>The three cases of \<^verbatim>\<open>AtAbort_Twophase\<close>.\<close>

lemma AtAbort_Twophase_spec:
  "(MyLockedGxact st = None \<longrightarrow> AtAbort_Twophase st = (Inr (), st))
   \<and> (MyLockedGxact st = Some g \<and> \<not> valid (deref st g)
        \<and> g \<in> set (resident st) \<and> distinct (resident st)
        \<and> numPrepXacts (TwoPhaseState st) \<le> length (prepXacts (TwoPhaseState st))
        \<and> g < length (gxacts st)
      \<longrightarrow> (\<exists>st'. AtAbort_Twophase st = (Inr (), st')
             \<and> set (resident st') = set (resident st) - {g}
             \<and> numPrepXacts (TwoPhaseState st') = numPrepXacts (TwoPhaseState st) - 1
             \<and> freeGXacts (TwoPhaseState st') = Some g
             \<and> links_next (proc (deref st' g)) = freeGXacts (TwoPhaseState st)
             \<and> (\<forall>q. q \<noteq> g \<longrightarrow> deref st' q = deref st q)
             \<and> MyLockedGxact st' = None))
   \<and> (MyLockedGxact st = Some g \<and> valid (deref st g)
      \<longrightarrow> AtAbort_Twophase st =
            (Inr (), st\<lparr>gxacts := (gxacts st)[g := (deref st g)\<lparr>locking_backend := InvalidBackendId\<rparr>],
                        MyLockedGxact := None\<rparr>))"
proof (intro conjI impI)
  assume "MyLockedGxact st = None"
  then show "AtAbort_Twophase st = (Inr (), st)" by (simp add: AtAbort_Twophase_def)
next
  assume a: "MyLockedGxact st = Some g \<and> \<not> valid (deref st g)
        \<and> g \<in> set (resident st) \<and> distinct (resident st)
        \<and> numPrepXacts (TwoPhaseState st) \<le> length (prepXacts (TwoPhaseState st))
        \<and> g < length (gxacts st)"
  then have g1: "g \<in> set (resident st)" and g2: "distinct (resident st)"
    and g3: "numPrepXacts (TwoPhaseState st) \<le> length (prepXacts (TwoPhaseState st))"
    and g4: "g < length (gxacts st)" by simp_all
  from RemoveGXact_resident [OF g1 g2 g3 g4] obtain st1 where
    r: "RemoveGXact g st = (Inr (), st1)"
    and p: "set (resident st1) = set (resident st) - {g}"
      "numPrepXacts (TwoPhaseState st1) = numPrepXacts (TwoPhaseState st) - 1"
      "freeGXacts (TwoPhaseState st1) = Some g"
      "links_next (proc (deref st1 g)) = freeGXacts (TwoPhaseState st)"
      "\<forall>q. q \<noteq> g \<longrightarrow> deref st1 q = deref st q"
    by blast
  let ?st' = "st1\<lparr>MyLockedGxact := None\<rparr>"
  have "AtAbort_Twophase st = (Inr (), ?st')"
    using a r by (simp add: AtAbort_Twophase_def)
  moreover have "resident ?st' = resident st1" by (simp add: resident_def)
  moreover have "\<And>q. deref ?st' q = deref st1 q" by (simp add: deref_def)
  ultimately show "\<exists>st'. AtAbort_Twophase st = (Inr (), st')
             \<and> set (resident st') = set (resident st) - {g}
             \<and> numPrepXacts (TwoPhaseState st') = numPrepXacts (TwoPhaseState st) - 1
             \<and> freeGXacts (TwoPhaseState st') = Some g
             \<and> links_next (proc (deref st' g)) = freeGXacts (TwoPhaseState st)
             \<and> (\<forall>q. q \<noteq> g \<longrightarrow> deref st' q = deref st q)
             \<and> MyLockedGxact st' = None"
    using p by (intro exI [of _ ?st']) simp
next
  assume "MyLockedGxact st = Some g \<and> valid (deref st g)"
  then show "AtAbort_Twophase st =
            (Inr (), st\<lparr>gxacts := (gxacts st)[g := (deref st g)\<lparr>locking_backend := InvalidBackendId\<rparr>],
                        MyLockedGxact := None\<rparr>)"
    by (simp add: AtAbort_Twophase_def store_def)
qed

lemma AtProcExit_Twophase_same: "AtProcExit_Twophase = AtAbort_Twophase"
  by (rule ext) (simp add: AtProcExit_Twophase_def)

text \<open>
  Claim C4. The abort hook \<^verbatim>\<open>AtAbort_Twophase\<close> and the process-exit hook
  \<^verbatim>\<open>AtProcExit_Twophase\<close> alike: with no pending slot nothing changes; a pending slot that
  is not valid is taken out of the live array (the other resident slots stay and keep their
  contents) and becomes the head of the free list, linked to the former head; a pending
  slot that is valid only has \<open>locking_backend\<close> reset and stays resident; and in each case
  \<^verbatim>\<open>MyLockedGxact\<close> is \<^verbatim>\<open>NULL\<close> afterwards. The pending slot is a resident one and the live
  array holds no pointer twice, as in every registry the functions of this file build.
\<close>

theorem abort_and_exit_hooks_cases:
  "\<forall>hook \<in> {AtAbort_Twophase, AtProcExit_Twophase}.
     (MyLockedGxact st = None \<longrightarrow> hook st = (Inr (), st))
   \<and> (MyLockedGxact st = Some g \<and> \<not> valid (deref st g)
        \<and> g \<in> set (resident st) \<and> distinct (resident st)
        \<and> numPrepXacts (TwoPhaseState st) \<le> length (prepXacts (TwoPhaseState st))
        \<and> g < length (gxacts st)
      \<longrightarrow> (\<exists>st'. hook st = (Inr (), st')
             \<and> set (resident st') = set (resident st) - {g}
             \<and> numPrepXacts (TwoPhaseState st') = numPrepXacts (TwoPhaseState st) - 1
             \<and> freeGXacts (TwoPhaseState st') = Some g
             \<and> links_next (proc (deref st' g)) = freeGXacts (TwoPhaseState st)
             \<and> (\<forall>q. q \<noteq> g \<longrightarrow> deref st' q = deref st q)
             \<and> MyLockedGxact st' = None))
   \<and> (MyLockedGxact st = Some g \<and> valid (deref st g)
      \<longrightarrow> hook st =
            (Inr (), st\<lparr>gxacts := (gxacts st)[g := (deref st g)\<lparr>locking_backend := InvalidBackendId\<rparr>],
                        MyLockedGxact := None\<rparr>))"
proof
  fix hook assume "hook \<in> {AtAbort_Twophase, AtProcExit_Twophase}"
  then have h: "hook = AtAbort_Twophase" using AtProcExit_Twophase_same by auto
  show "(MyLockedGxact st = None \<longrightarrow> hook st = (Inr (), st))
   \<and> (MyLockedGxact st = Some g \<and> \<not> valid (deref st g)
        \<and> g \<in> set (resident st) \<and> distinct (resident st)
        \<and> numPrepXacts (TwoPhaseState st) \<le> length (prepXacts (TwoPhaseState st))
        \<and> g < length (gxacts st)
      \<longrightarrow> (\<exists>st'. hook st = (Inr (), st')
             \<and> set (resident st') = set (resident st) - {g}
             \<and> numPrepXacts (TwoPhaseState st') = numPrepXacts (TwoPhaseState st) - 1
             \<and> freeGXacts (TwoPhaseState st') = Some g
             \<and> links_next (proc (deref st' g)) = freeGXacts (TwoPhaseState st)
             \<and> (\<forall>q. q \<noteq> g \<longrightarrow> deref st' q = deref st q)
             \<and> MyLockedGxact st' = None))
   \<and> (MyLockedGxact st = Some g \<and> valid (deref st g)
      \<longrightarrow> hook st =
            (Inr (), st\<lparr>gxacts := (gxacts st)[g := (deref st g)\<lparr>locking_backend := InvalidBackendId\<rparr>],
                        MyLockedGxact := None\<rparr>))"
    unfolding h by (rule AtAbort_Twophase_spec)
qed

text \<open>
  For either hook: no pending slot in \<open>st_three\<close>; the pending reservation of \<open>gxd\<close>
  (slot 0) is removed; the lock on the prepared \<open>gxa\<close> (slot 2) is dropped and the slot
  stays.
\<close>

theorem abort_and_exit_hooks_cases_witness:
  "AtAbort_Twophase st_three = (Inr (), st_three)
   \<and> AtProcExit_Twophase st_three = (Inr (), st_three)
   \<and> (\<exists>st'. AtAbort_Twophase st_reserving = (Inr (), st')
          \<and> set (resident st') = {1, 2, 3}
          \<and> freeGXacts (TwoPhaseState st') = Some 0
          \<and> MyLockedGxact st' = None)
   \<and> (\<exists>st'. AtProcExit_Twophase st_reserving = (Inr (), st')
          \<and> set (resident st') = {1, 2, 3}
          \<and> freeGXacts (TwoPhaseState st') = Some 0
          \<and> MyLockedGxact st' = None)
   \<and> AtAbort_Twophase st_locked_by_me
        = (Inr (), st_locked_by_me\<lparr>gxacts := (gxacts st_locked_by_me)
                       [2 := (deref st_locked_by_me 2)\<lparr>locking_backend := InvalidBackendId\<rparr>],
                     MyLockedGxact := None\<rparr>)
   \<and> AtProcExit_Twophase st_locked_by_me
        = (Inr (), st_locked_by_me\<lparr>gxacts := (gxacts st_locked_by_me)
                       [2 := (deref st_locked_by_me 2)\<lparr>locking_backend := InvalidBackendId\<rparr>],
                     MyLockedGxact := None\<rparr>)
   \<and> resident (snd (AtAbort_Twophase st_locked_by_me)) = [3, 2, 1]
   \<and> resident (snd (AtProcExit_Twophase st_locked_by_me)) = [3, 2, 1]"
proof -
  have ha: "AtAbort_Twophase \<in> {AtAbort_Twophase, AtProcExit_Twophase}" by simp
  have he: "AtProcExit_Twophase \<in> {AtAbort_Twophase, AtProcExit_Twophase}" by simp
  have a: "MyLockedGxact st_three = None" by code_simp
  have b: "MyLockedGxact st_reserving = Some 0 \<and> \<not> valid (deref st_reserving 0)
        \<and> 0 \<in> set (resident st_reserving) \<and> distinct (resident st_reserving)
        \<and> numPrepXacts (TwoPhaseState st_reserving) \<le> length (prepXacts (TwoPhaseState st_reserving))
        \<and> 0 < length (gxacts st_reserving)"
    by code_simp
  have r: "set (resident st_reserving) - {0} = {1, 2, 3}" by code_simp
  have c: "MyLockedGxact st_locked_by_me = Some 2 \<and> valid (deref st_locked_by_me 2)" by code_simp
  have d: "resident (snd (AtAbort_Twophase st_locked_by_me)) = [3, 2, 1]" by code_simp
  have d': "resident (snd (AtProcExit_Twophase st_locked_by_me)) = [3, 2, 1]" by code_simp
  note t1 = abort_and_exit_hooks_cases [of st_three 0]
  note t2 = abort_and_exit_hooks_cases [of st_reserving 0]
  note t3 = abort_and_exit_hooks_cases [of st_locked_by_me 2]
  from bspec [OF t1 ha] a
  have 1: "AtAbort_Twophase st_three = (Inr (), st_three)" by blast
  from bspec [OF t1 he] a
  have e1: "AtProcExit_Twophase st_three = (Inr (), st_three)" by blast
  from bspec [OF t2 ha] b r
  have 2: "\<exists>st'. AtAbort_Twophase st_reserving = (Inr (), st')
          \<and> set (resident st') = {1, 2, 3}
          \<and> freeGXacts (TwoPhaseState st') = Some 0
          \<and> MyLockedGxact st' = None"
    by auto
  from bspec [OF t2 he] b r
  have e2: "\<exists>st'. AtProcExit_Twophase st_reserving = (Inr (), st')
          \<and> set (resident st') = {1, 2, 3}
          \<and> freeGXacts (TwoPhaseState st') = Some 0
          \<and> MyLockedGxact st' = None"
    by auto
  from bspec [OF t3 ha] c
  have 3: "AtAbort_Twophase st_locked_by_me
        = (Inr (), st_locked_by_me\<lparr>gxacts := (gxacts st_locked_by_me)
                       [2 := (deref st_locked_by_me 2)\<lparr>locking_backend := InvalidBackendId\<rparr>],
                     MyLockedGxact := None\<rparr>)"
    by blast
  from bspec [OF t3 he] c
  have e3: "AtProcExit_Twophase st_locked_by_me
        = (Inr (), st_locked_by_me\<lparr>gxacts := (gxacts st_locked_by_me)
                       [2 := (deref st_locked_by_me 2)\<lparr>locking_backend := InvalidBackendId\<rparr>],
                     MyLockedGxact := None\<rparr>)"
    by blast
  from 1 e1 2 e2 3 e3 d d' show ?thesis by blast
qed
subsection \<open>Assembling the state file\<close>

lemma length_le_bytes [simp]: "length (le_bytes n w) = n"
  by (induction n arbitrary: w) auto

lemma le_word_le_bytes: "le_word (le_bytes n w) = take_bit (8 * n) w"
proof (induction n arbitrary: w)
  case 0
  then show ?case by simp
next
  case (Suc n)
  show ?case
    apply (simp add: Suc)
    apply (rule bit_eqI)
    apply (auto simp: bit_simps)
    done
qed

lemma le_word_le_bytes_32 [simp]: "le_word (le_bytes 4 (w :: 32 word)) = w"
  by (simp add: le_word_le_bytes take_bit_word_eq_self)

lemma le_word_le_bytes_16 [simp]: "le_word (le_bytes 2 (w :: 16 word)) = w"
  by (simp add: le_word_le_bytes take_bit_word_eq_self)

lemma MAXALIGN_ge: "len \<le> MAXALIGN len"
  by (simp add: MAXALIGN_def)

lemma MAXALIGN_nonneg: "0 \<le> len \<Longrightarrow> 0 \<le> MAXALIGN len"
  using MAXALIGN_ge [of len] by arith

lemma MAXALIGN_8 [simp]: "MAXALIGN 8 = 8" and MAXALIGN_0 [simp]: "MAXALIGN 0 = 0"
  and MAXALIGN_240 [simp]: "MAXALIGN 240 = 240"
  by (simp_all add: MAXALIGN_def)

lemma u32_id: "0 \<le> n \<Longrightarrow> n < 4294967296 \<Longrightarrow> u32 n = n"
  by (simp add: u32_def)

lemma length_padded:
  "0 \<le> len \<Longrightarrow> len \<le> int (length data) \<Longrightarrow> length (padded e pos data len) = nat (MAXALIGN len)"
  using MAXALIGN_ge [of len] by (auto simp: padded_def min_def)

lemma concat_butlast_last:
  "bs \<noteq> [] \<Longrightarrow> concat (butlast bs @ [last bs @ seg]) = concat bs @ seg"
  by (induction bs) auto

lemma concat_butlast_last0:
  "bs \<noteq> [] \<Longrightarrow> concat (butlast bs) @ last bs = concat bs"
  by (induction bs) auto

lemma save_state_data_chain:
  assumes "save_state_data e data len r = Inr r'"
    and "0 \<le> len" and "MAXALIGN len < 4294967296"
  shows "chain_bytes r' = chain_bytes r @ padded e (length (chain_bytes r)) data len
       \<and> total_len r' = u32 (total_len r + MAXALIGN len)
       \<and> blocks r' \<noteq> []
       \<and> hd (blocks r') = hd (blocks r) @ (if length (blocks r') = 1 then padded e (length (chain_bytes r)) data len else [])
       \<and> len \<le> int (length data)"
proof -
  have p: "u32 (MAXALIGN len) = MAXALIGN len"
    using assms(2,3) MAXALIGN_nonneg [of len] by (simp add: u32_id)
  have ne: "blocks r \<noteq> []" using assms(1) by (auto simp: save_state_data_def Let_def split: if_splits)
  show ?thesis
  proof (cases "MAXALIGN len > bytes_free r")
    case True
    let ?r1 = "r\<lparr>blocks := blocks r @ [[]], bytes_free := max (MAXALIGN len) 512\<rparr>"
    have c: "chain_bytes ?r1 = chain_bytes r" by (simp add: chain_bytes_def)
    from assms(1) True p ne have ok: "\<not> (len > bytes_free ?r1 \<or> len > int (length data))"
      by (auto simp: save_state_data_def Let_def split: if_splits)
    from assms(1) True p ne ok have r': "r' = ?r1\<lparr>blocks := butlast (blocks ?r1) @ [last (blocks ?r1) @ take (nat (MAXALIGN len)) (padded e (length (chain_bytes r)) data len)],
                         bytes_free := bytes_free ?r1 - MAXALIGN len,
                         total_len := u32 (total_len ?r1 + MAXALIGN len)\<rparr>"
      by (auto simp: save_state_data_def Let_def c padded_def split: if_splits)
    have l: "length (padded e (length (chain_bytes r)) data len) = nat (MAXALIGN len)"
      using ok assms(2) by (intro length_padded) auto
    show ?thesis using ne ok l unfolding r' by (cases "blocks r") (auto simp: chain_bytes_def)
  next
    case False
    from assms(1) False p ne have ok: "\<not> (len > bytes_free r \<or> len > int (length data))"
      by (auto simp: save_state_data_def Let_def split: if_splits)
    from assms(1) False p ne ok have r': "r' = r\<lparr>blocks := butlast (blocks r) @ [last (blocks r) @ take (nat (MAXALIGN len)) (padded e (length (chain_bytes r)) data len)],
                         bytes_free := bytes_free r - MAXALIGN len,
                         total_len := u32 (total_len r + MAXALIGN len)\<rparr>"
      by (auto simp: save_state_data_def Let_def padded_def split: if_splits)
    have l: "length (padded e (length (chain_bytes r)) data len) = nat (MAXALIGN len)"
      using ok assms(2) by (intro length_padded) auto
    have hd1: "hd (butlast (blocks r) @ [last (blocks r) @ s]) = hd (blocks r) @ (if length (blocks r) = 1 then s else [])" for s
      using ne by (cases "blocks r") (auto simp: hd_append)
    show ?thesis using ne ok l unfolding r'
      by (simp add: chain_bytes_def concat_butlast_last0 hd1)
  qed
qed


lemma u32_u32_add [simp]: "u32 (u32 a + b) = u32 (a + b)"
  by (simp add: u32_def mod_add_left_eq)

lemma length_record_bytes [simp]: "length (record_bytes p len rmid info) = 8"
  by (simp add: record_bytes_def)

lemma padded_record_bytes [simp]: "padded e pos (record_bytes p len rmid info) 8 = record_bytes p len rmid info"
  by (simp add: padded_def)

lemma RegisterTwoPhaseRecord_chain:
  assumes "RegisterTwoPhaseRecord e rmid info data len r = Inr r'"
    and "0 \<le> len" and "MAXALIGN len < 4294967296"
  shows "chain_bytes r' = chain_bytes r @ record_seg e (length (chain_bytes r)) rmid info data len
       \<and> total_len r' = u32 (total_len r + 8 + (if len > 0 then MAXALIGN len else 0))
       \<and> blocks r' \<noteq> []
       \<and> (\<exists>t. hd (blocks r') = hd (blocks r) @ t)
       \<and> (len > 0 \<longrightarrow> len \<le> int (length data))"
proof -
  let ?rb = "record_bytes (junk e (length (chain_bytes r) + 5)) len rmid info"
  from assms(1) obtain r1 where
    s1: "save_state_data e ?rb 8 r = Inr r1"
    and s2: "(if len > 0 then save_state_data e data len r1 else Inr r1) = Inr r'"
    by (auto simp: RegisterTwoPhaseRecord_def split: sum.splits)
  have m8: "MAXALIGN 8 < 4294967296" by simp
  from save_state_data_chain [OF s1 _ m8] have
    c1: "chain_bytes r1 = chain_bytes r @ ?rb"
    and t1: "total_len r1 = u32 (total_len r + 8)"
    and b1: "blocks r1 \<noteq> []"
    and h1: "\<exists>t. hd (blocks r1) = hd (blocks r) @ t"
    by auto
  show ?thesis
  proof (cases "len > 0")
    case False
    with s2 have "r' = r1" by simp
    with c1 t1 b1 h1 False show ?thesis by (simp add: record_seg_def)
  next
    case True
    with s2 have s3: "save_state_data e data len r1 = Inr r'" by simp
    from save_state_data_chain [OF s3 assms(2,3)] have
      c2: "chain_bytes r' = chain_bytes r1 @ padded e (length (chain_bytes r1)) data len"
      and t2: "total_len r' = u32 (total_len r1 + MAXALIGN len)"
      and b2: "blocks r' \<noteq> []"
      and h2: "\<exists>t. hd (blocks r') = hd (blocks r1) @ t"
      and l2: "len \<le> int (length data)"
      by auto
    from h1 h2 have h: "\<exists>t. hd (blocks r') = hd (blocks r) @ t" by auto
    from c1 c2 t1 t2 b2 h l2 True show ?thesis
      by (simp add: record_seg_def add.assoc)
  qed
qed

lemma rd32_le_bytes [simp]: "rd32 (le_bytes 4 (w :: 32 word) @ rest) 0 = w"
  by (simp add: rd32_def)






lemma register_records_chain:
  assumes "register_records e recs r = Inr r'"
    and "\<forall>x \<in> set recs. MAXALIGN (int (length (rec_data x))) < 4294967296"
    and "total_len r = u32 (total_len r)"
  shows "chain_bytes r' = chain_bytes r @ records_stream e (length (chain_bytes r)) recs
       \<and> total_len r' = u32 (total_len r + records_size recs)
       \<and> (\<exists>t. hd (blocks r') = hd (blocks r) @ t)
       \<and> (blocks r \<noteq> [] \<longrightarrow> blocks r' \<noteq> [])"
  using assms
proof (induction recs arbitrary: r)
  case Nil
  then show ?case by (simp add: records_size_def)
next
  case (Cons x xs)
  let ?len = "int (length (rec_data x))"
  from Cons.prems(1) obtain r1 where
    a: "RegisterTwoPhaseRecord e (rec_rmid x) (rec_info x) (rec_data x) ?len r = Inr r1"
    and b: "register_records e xs r1 = Inr r'"
    by (auto split: sum.splits)
  have m: "MAXALIGN ?len < 4294967296" using Cons.prems(2) by simp
  from RegisterTwoPhaseRecord_chain [OF a _ m] have
    c1: "chain_bytes r1 = chain_bytes r @ record_seg e (length (chain_bytes r)) (rec_rmid x) (rec_info x) (rec_data x) ?len"
    and t1: "total_len r1 = u32 (total_len r + 8 + (if ?len > 0 then MAXALIGN ?len else 0))"
    and h1: "\<exists>t. hd (blocks r1) = hd (blocks r) @ t"
    and b1: "blocks r1 \<noteq> []"
    by auto
  have u1: "total_len r1 = u32 (total_len r1)" unfolding t1 by (simp add: u32_def)
  from Cons.IH [OF b _ u1] Cons.prems(2) b1 have
    c2: "chain_bytes r' = chain_bytes r1 @ records_stream e (length (chain_bytes r1)) xs"
    and t2: "total_len r' = u32 (total_len r1 + records_size xs)"
    and h2: "\<exists>t. hd (blocks r') = hd (blocks r1) @ t"
    and b2: "blocks r' \<noteq> []"
    by auto
  have sz: "records_size (x # xs) = 8 + (if ?len > 0 then MAXALIGN ?len else 0) + records_size xs"
    by (simp add: records_size_def)
  from h1 h2 have h: "\<exists>t. hd (blocks r') = hd (blocks r) @ t" by auto
  show ?case using c1 c2 t1 t2 h sz b2 by (simp add: add.assoc)
qed

lemma total_len_u32: "total_len r' = u32 x \<Longrightarrow> 0 \<le> total_len r' \<and> total_len r' < 4294967296"
  by (simp add: u32_def)


lemma length_gid_bytes [simp]: "length (gid_bytes g) = 200"
  by (simp add: gid_bytes_def GIDSIZE_def)

lemma length_hdr_bytes [simp]: "length (hdr_bytes h) = 240"
  by (simp add: hdr_bytes_def)

lemma sint_count32: "length xs < 2147483648 \<Longrightarrow> sint (count32 xs) = int (length xs)"
  unfolding count32_def
  by (simp add: signed_of_nat signed_take_bit_int_eq_self)

lemma length_xids_bytes [simp]: "length (xids_bytes xs) = 4 * length xs"
  by (induction xs) (auto simp: xids_bytes_def)

lemma length_rels_bytes [simp]: "length (rels_bytes xs) = 12 * length xs"
  by (induction xs) (auto simp: rels_bytes_def rel_bytes_def)


lemma save_if_chain:
  assumes "(if c > 0 then save_state_data e data (u32 (c * k)) r else Inr r) = Inr r'"
    and "0 \<le> c" and "0 < k" and "MAXALIGN (c * k) < 4294967296"
    and "total_len r = u32 (total_len r)"
  shows "\<exists>A. chain_bytes r' = chain_bytes r @ A \<and> length A = nat (MAXALIGN (c * k))
            \<and> take (nat (c * k)) A = take (nat (c * k)) data
            \<and> (c > 0 \<longrightarrow> c * k \<le> int (length data))
            \<and> total_len r' = u32 (total_len r + MAXALIGN (c * k))
            \<and> total_len r' = u32 (total_len r')
            \<and> (\<exists>t. hd (blocks r') = hd (blocks r) @ t)
            \<and> (blocks r \<noteq> [] \<longrightarrow> blocks r' \<noteq> [])"
proof (cases "c > 0")
  case False
  with assms(2) have c0: "c = 0" by simp
  with assms(1) have "r' = r" by simp
  with c0 assms(5) show ?thesis by simp
next
  case True
  have nn: "0 \<le> c * k" using assms(2,3) by simp
  have lt: "c * k < 4294967296" using assms(4) MAXALIGN_ge [of "c * k"] by arith
  have u: "u32 (c * k) = c * k" using nn lt by (simp add: u32_id)
  from assms(1) True u have s: "save_state_data e data (c * k) r = Inr r'" by simp
  from save_state_data_chain [OF s nn assms(4)] have
    c1: "chain_bytes r' = chain_bytes r @ padded e (length (chain_bytes r)) data (c * k)"
    and t1: "total_len r' = u32 (total_len r + MAXALIGN (c * k))"
    and h1: "\<exists>t. hd (blocks r') = hd (blocks r) @ t"
    and l1: "c * k \<le> int (length data)"
    and b1: "blocks r' \<noteq> []"
    by auto
  have lp: "length (padded e (length (chain_bytes r)) data (c * k)) = nat (MAXALIGN (c * k))"
    using nn l1 by (rule length_padded)
  have tp: "take (nat (c * k)) (padded e (length (chain_bytes r)) data (c * k)) = take (nat (c * k)) data"
    using nn l1 by (simp add: padded_def)
  have u1: "total_len r' = u32 (total_len r')" unfolding t1 by (simp add: u32_def)
  show ?thesis using c1 t1 h1 l1 lp tp u1 b1 by blast
qed

lemma start_hdr_counts [simp]:
  "hdr_nsubxacts (start_hdr st g children commitrels abortrels) = count32 children"
  "hdr_ncommitrels (start_hdr st g children commitrels abortrels) = count32 commitrels"
  "hdr_nabortrels (start_hdr st g children commitrels abortrels) = count32 abortrels"
  "hdr_xid (start_hdr st g children commitrels abortrels) = xid (proc (deref st g))"
  by (simp_all add: start_hdr_def)

lemma save_header:
  "\<not> 512 > MaxAllocSize e \<Longrightarrow>
   save_state_data e (hdr_bytes h) 240 \<lparr>blocks = [[]], bytes_free = 512, total_len = 0\<rparr>
     = Inr \<lparr>blocks = [hdr_bytes h], bytes_free = 272, total_len = 240\<rparr>"
  by (simp add: save_state_data_def Let_def u32_def chain_bytes_def)

lemma StartPrepare_success:
  assumes "StartPrepare e g children commitrels abortrels st = (Inr (), st1)"
  shows "\<exists>r2 r3.
           (if sint (count32 children) > 0
            then save_state_data e (xids_bytes children) (u32 (sint (count32 children) * 4))
                   \<lparr>blocks = [hdr_bytes (start_hdr st g children commitrels abortrels)], bytes_free = 272, total_len = 240\<rparr>
            else Inr \<lparr>blocks = [hdr_bytes (start_hdr st g children commitrels abortrels)], bytes_free = 272, total_len = 240\<rparr>) = Inr r2
         \<and> (if sint (count32 commitrels) > 0
            then save_state_data e (rels_bytes commitrels) (u32 (sint (count32 commitrels) * 12)) r2
            else Inr r2) = Inr r3
         \<and> (if sint (count32 abortrels) > 0
            then save_state_data e (rels_bytes abortrels) (u32 (sint (count32 abortrels) * 12)) r3
            else Inr r3) = Inr (records st1)"
proof -
  let ?h = "start_hdr st g children commitrels abortrels"
  have m: "\<not> 512 > MaxAllocSize e"
    using assms by (auto simp: StartPrepare_def Let_def split: if_splits)
  note sh = save_header [OF m, of ?h]
  show ?thesis
    using assms m
    unfolding StartPrepare_def Let_def start_hdr_def [symmetric]
    by (auto simp: sh split: sum.splits if_splits)
qed


lemma save_state_data_ok:
  assumes "blocks r \<noteq> []" and "0 \<le> len" and "len \<le> int (length data)"
    and "MAXALIGN len < 4294967296" and "max (MAXALIGN len) 512 \<le> MaxAllocSize e"
  shows "\<exists>r'. save_state_data e data len r = Inr r'"
proof -
  have p: "u32 (MAXALIGN len) = MAXALIGN len"
    using assms(2,4) MAXALIGN_nonneg [of len] by (simp add: u32_id)
  have ge: "len \<le> MAXALIGN len" by (rule MAXALIGN_ge)
  show ?thesis
    using assms(1,3,5) ge
    by (auto simp: save_state_data_def Let_def p)
qed

lemma RegisterTwoPhaseRecord_ok:
  assumes "blocks r \<noteq> []" and "0 \<le> len" and "len \<le> int (length data)"
    and "MAXALIGN len < 4294967296" and "max (MAXALIGN len) 512 \<le> MaxAllocSize e"
  shows "\<exists>r'. RegisterTwoPhaseRecord e rmid info data len r = Inr r'"
proof -
  let ?rb = "record_bytes (junk e (length (chain_bytes r) + 5)) len rmid info"
  have "512 \<le> MaxAllocSize e" using assms(5) by simp
  then have "\<exists>r1. save_state_data e ?rb 8 r = Inr r1"
    by (intro save_state_data_ok assms(1)) simp_all
  then obtain r1 where s1: "save_state_data e ?rb 8 r = Inr r1" ..
  have m8: "MAXALIGN 8 < 4294967296" by simp
  from save_state_data_chain [OF s1 _ m8] have b1: "blocks r1 \<noteq> []" by simp
  from save_state_data_ok [OF b1 assms(2,3,4,5)] obtain r' where
    "save_state_data e data len r1 = Inr r'" ..
  with s1 show ?thesis by (simp add: RegisterTwoPhaseRecord_def)
qed

lemma rd32_hdr_magic: "rd32 (hdr_bytes h @ t) 0 = hdr_magic h"
  by (simp add: hdr_bytes_def rd32_def)

lemma patch_append:
  "8 \<le> length H \<Longrightarrow> patch_total_len n (H @ t) = patch_total_len n H @ t"
  by (simp add: patch_total_len_def)

lemma length_patch [simp]: "8 \<le> length b \<Longrightarrow> length (patch_total_len n b) = length b"
  by (simp add: patch_total_len_def)

lemma EndPrepare_assemble_chain:
  assumes "hd (blocks r) = hdr_bytes h @ t" and "hdr_magic h = TWOPHASE_MAGIC"
    and "blocks r \<noteq> []" and "512 \<le> MaxAllocSize e"
  shows "\<exists>r3. EndPrepare_assemble e r =
                 (if u32 (total_len r + 12) > MaxAllocSize e then Inl LimitExceeded else Inr (), r3)
            \<and> chain_bytes r3 = patch_total_len (u32 (total_len r + 12)) (hdr_bytes h)
                 @ drop 240 (chain_bytes r)
                 @ record_seg e (length (chain_bytes r)) (TWOPHASE_RM_END_ID e) 0 [] 0"
proof -
  have "\<exists>r1. RegisterTwoPhaseRecord e (TWOPHASE_RM_END_ID e) 0 [] 0 r = Inr r1"
    using assms(3,4) by (intro RegisterTwoPhaseRecord_ok) simp_all
  then obtain r1 where s: "RegisterTwoPhaseRecord e (TWOPHASE_RM_END_ID e) 0 [] 0 r = Inr r1" ..
  from RegisterTwoPhaseRecord_chain [OF s] have
    c1: "chain_bytes r1 = chain_bytes r @ record_seg e (length (chain_bytes r)) (TWOPHASE_RM_END_ID e) 0 [] 0"
    and t1: "total_len r1 = u32 (total_len r + 8)"
    and b1: "blocks r1 \<noteq> []"
    and h1: "\<exists>t'. hd (blocks r1) = hd (blocks r) @ t'"
    by auto
  from h1 assms(1) obtain t' where hd1: "hd (blocks r1) = hdr_bytes h @ (t @ t')" by auto
  from b1 obtain b bs where bl: "blocks r1 = b # bs" by (cases "blocks r1") auto
  with hd1 have b: "b = hdr_bytes h @ (t @ t')" by simp
  have mg: "rd32 b 0 = TWOPHASE_MAGIC" unfolding b using assms(2) by (simp add: rd32_hdr_magic)
  let ?total = "u32 (total_len r + 12)"
  have tot: "u32 (total_len r1 + 4) = ?total" unfolding t1 by (simp add: add.assoc)
  let ?r3 = "r1\<lparr>blocks := patch_total_len ?total b # bs\<rparr>"
  have res: "EndPrepare_assemble e r =
                 (if ?total > MaxAllocSize e then Inl LimitExceeded else Inr (), ?r3)"
    by (simp add: EndPrepare_assemble_def s bl mg tot Let_def)
  have cb: "chain_bytes r1 = hdr_bytes h @ (t @ t') @ concat bs"
    by (simp add: chain_bytes_def bl b)
  have "chain_bytes ?r3 = patch_total_len ?total (hdr_bytes h) @ (t @ t') @ concat bs"
    by (simp add: chain_bytes_def b patch_append)
  also have "(t @ t') @ concat bs = drop 240 (chain_bytes r1)" unfolding cb by simp
  also have "drop 240 (chain_bytes r1) = drop 240 (chain_bytes r) @ record_seg e (length (chain_bytes r)) (TWOPHASE_RM_END_ID e) 0 [] 0"
  proof -
    have "240 \<le> length (chain_bytes r)"
      using assms(1,3) by (cases "blocks r") (auto simp: chain_bytes_def)
    then show ?thesis unfolding c1 by simp
  qed
  finally show ?thesis using res by blast
qed

lemma rd32_patched_hdr:
  "rd32 (patch_total_len n (hdr_bytes h) @ rest) 28 = hdr_nsubxacts h"
  "rd32 (patch_total_len n (hdr_bytes h) @ rest) 32 = hdr_ncommitrels h"
  "rd32 (patch_total_len n (hdr_bytes h) @ rest) 36 = hdr_nabortrels h"
  "rd32 (patch_total_len n (hdr_bytes h) @ rest) 8 = hdr_xid h"
  "rd32 (patch_total_len n (hdr_bytes h) @ rest) 4 = word_of_int n"
  by (simp_all add: patch_total_len_def hdr_bytes_def rd32_def)



lemma MAXALIGN_fits: "len \<le> 4294967288 \<Longrightarrow> MAXALIGN len < 4294967296"
  unfolding MAXALIGN_def by presburger

lemma StartPrepare_chain:
  assumes sp: "StartPrepare e g children commitrels abortrels st = (Inr (), st1)"
    and a1: "int (length children) * 4 \<le> 4294967288"
    and a2: "int (length commitrels) * 12 \<le> 4294967288"
    and a3: "int (length abortrels) * 12 \<le> 4294967288"
  shows "\<exists>A1 A2 A3 t.
           chain_bytes (records st1)
             = hdr_bytes (start_hdr st g children commitrels abortrels) @ A1 @ A2 @ A3
         \<and> length A1 = nat (MAXALIGN (int (length children) * 4))
         \<and> length A2 = nat (MAXALIGN (int (length commitrels) * 12))
         \<and> length A3 = nat (MAXALIGN (int (length abortrels) * 12))
         \<and> take (4 * length children) A1 = xids_bytes children
         \<and> take (12 * length commitrels) A2 = rels_bytes commitrels
         \<and> take (12 * length abortrels) A3 = rels_bytes abortrels
         \<and> total_len (records st1)
             = u32 (240 + MAXALIGN (int (length children) * 4)
                        + MAXALIGN (int (length commitrels) * 12)
                        + MAXALIGN (int (length abortrels) * 12))
         \<and> hd (blocks (records st1)) = hdr_bytes (start_hdr st g children commitrels abortrels) @ t
         \<and> blocks (records st1) \<noteq> []
         \<and> 512 \<le> MaxAllocSize e"
proof -
  let ?h = "start_hdr st g children commitrels abortrels"
  let ?r1 = "\<lparr>blocks = [hdr_bytes ?h], bytes_free = 272, total_len = 240\<rparr>"
  have s1: "sint (count32 children) = int (length children)"
    using a1 by (intro sint_count32) simp
  have s2: "sint (count32 commitrels) = int (length commitrels)"
    using a2 by (intro sint_count32) simp
  have s3: "sint (count32 abortrels) = int (length abortrels)"
    using a3 by (intro sint_count32) simp
  have m: "512 \<le> MaxAllocSize e"
    using sp by (auto simp: StartPrepare_def Let_def split: if_splits)
  from StartPrepare_success [OF sp] obtain r2 r3 where
    e1: "(if int (length children) > 0
            then save_state_data e (xids_bytes children) (u32 (int (length children) * 4)) ?r1
            else Inr ?r1) = Inr r2"
    and e2: "(if int (length commitrels) > 0
            then save_state_data e (rels_bytes commitrels) (u32 (int (length commitrels) * 12)) r2
            else Inr r2) = Inr r3"
    and e3: "(if int (length abortrels) > 0
            then save_state_data e (rels_bytes abortrels) (u32 (int (length abortrels) * 12)) r3
            else Inr r3) = Inr (records st1)"
    unfolding s1 s2 s3 by blast
  have u0: "total_len ?r1 = u32 (total_len ?r1)" by (simp add: u32_def)
  from save_if_chain [OF e1 _ _ MAXALIGN_fits [OF a1] u0] obtain A1 where
    c1: "chain_bytes r2 = chain_bytes ?r1 @ A1" and l1: "length A1 = nat (MAXALIGN (int (length children) * 4))"
    and k1: "take (nat (int (length children) * 4)) A1 = take (nat (int (length children) * 4)) (xids_bytes children)"
    and t1: "total_len r2 = u32 (total_len ?r1 + MAXALIGN (int (length children) * 4))"
    and u1: "total_len r2 = u32 (total_len r2)"
    and h1: "\<exists>t. hd (blocks r2) = hd (blocks ?r1) @ t"
    and b1: "blocks r2 \<noteq> []"
    by auto
  from save_if_chain [OF e2 _ _ MAXALIGN_fits [OF a2] u1] obtain A2 where
    c2: "chain_bytes r3 = chain_bytes r2 @ A2" and l2: "length A2 = nat (MAXALIGN (int (length commitrels) * 12))"
    and k2: "take (nat (int (length commitrels) * 12)) A2 = take (nat (int (length commitrels) * 12)) (rels_bytes commitrels)"
    and t2: "total_len r3 = u32 (total_len r2 + MAXALIGN (int (length commitrels) * 12))"
    and u2: "total_len r3 = u32 (total_len r3)"
    and h2: "\<exists>t. hd (blocks r3) = hd (blocks r2) @ t"
    and b2: "blocks r3 \<noteq> []"
    using b1 by auto
  from save_if_chain [OF e3 _ _ MAXALIGN_fits [OF a3] u2] obtain A3 where
    c3: "chain_bytes (records st1) = chain_bytes r3 @ A3" and l3: "length A3 = nat (MAXALIGN (int (length abortrels) * 12))"
    and k3: "take (nat (int (length abortrels) * 12)) A3 = take (nat (int (length abortrels) * 12)) (rels_bytes abortrels)"
    and t3: "total_len (records st1) = u32 (total_len r3 + MAXALIGN (int (length abortrels) * 12))"
    and h3: "\<exists>t. hd (blocks (records st1)) = hd (blocks r3) @ t"
    and b3: "blocks (records st1) \<noteq> []"
    using b2 by auto
  have n4: "nat (int (length children) * 4) = 4 * length children" by (simp add: nat_mult_distrib)
  have n12a: "nat (int (length commitrels) * 12) = 12 * length commitrels" by (simp add: nat_mult_distrib)
  have n12b: "nat (int (length abortrels) * 12) = 12 * length abortrels" by (simp add: nat_mult_distrib)
  from h1 h2 h3 obtain t where hd: "hd (blocks (records st1)) = hdr_bytes ?h @ t" by auto
  have ch: "chain_bytes (records st1) = hdr_bytes ?h @ A1 @ A2 @ A3"
    unfolding c3 c2 c1 by (simp add: chain_bytes_def)
  have tl: "total_len (records st1)
             = u32 (240 + MAXALIGN (int (length children) * 4)
                        + MAXALIGN (int (length commitrels) * 12)
                        + MAXALIGN (int (length abortrels) * 12))"
    unfolding t3 t2 t1 by (simp add: add.assoc)
  show ?thesis
    using ch l1 l2 l3 k1 k2 k3 tl hd b3 m unfolding n4 n12a n12b
    by (intro exI [of _ A1] exI [of _ A2] exI [of _ A3] exI [of _ t]) simp
qed

subsection \<open>The records of the state file come back as they were registered\<close>




subsection \<open>The length written by EndPrepare and its limit\<close>

lemma register_records_ok:
  assumes "blocks r \<noteq> []"
    and "\<forall>x \<in> set recs. MAXALIGN (int (length (rec_data x))) < 4294967296
           \<and> max (MAXALIGN (int (length (rec_data x)))) 512 \<le> MaxAllocSize e"
  shows "\<exists>r'. register_records e recs r = Inr r'"
  using assms
proof (induction recs arbitrary: r)
  case Nil
  then show ?case by simp
next
  case (Cons x xs)
  let ?len = "int (length (rec_data x))"
  have m: "MAXALIGN ?len < 4294967296" and a: "max (MAXALIGN ?len) 512 \<le> MaxAllocSize e"
    using Cons.prems(2) by simp_all
  from RegisterTwoPhaseRecord_ok [OF Cons.prems(1) _ _ m a, of "rec_data x" "rec_rmid x" "rec_info x"]
  obtain r1 where s: "RegisterTwoPhaseRecord e (rec_rmid x) (rec_info x) (rec_data x) ?len r = Inr r1"
    by auto
  from RegisterTwoPhaseRecord_chain [OF s _ m] have b1: "blocks r1 \<noteq> []" by simp
  from Cons.IH [OF b1] Cons.prems(2) obtain r' where "register_records e xs r1 = Inr r'" by auto
  with s show ?case by simp
qed

lemma length_record_seg:
  "length (record_seg e pos rmid info data (int (length data)))
     = nat (8 + (if data = [] then 0 else MAXALIGN (int (length data))))"
  using length_padded [of "int (length data)" data e "pos + 8"] MAXALIGN_nonneg [of "int (length data)"]
  by (simp add: record_seg_def nat_add_distrib)

lemma records_size_nonneg: "0 \<le> records_size recs"
  unfolding records_size_def
  by (induction recs) (auto simp: MAXALIGN_nonneg intro: add_nonneg_nonneg)

lemma length_records_stream:
  "int (length (records_stream e pos recs)) = records_size recs"
proof (induction recs arbitrary: pos)
  case Nil
  then show ?case by (simp add: records_size_def)
next
  case (Cons x xs)
  have "records_size (x # xs) = 8 + (if rec_data x = [] then 0 else MAXALIGN (int (length (rec_data x)))) + records_size xs"
    by (simp add: records_size_def)
  then show ?case
    using Cons.IH MAXALIGN_nonneg [of "int (length (rec_data x))"]
    by (simp add: length_record_seg)
qed

lemma length_big_data [simp]: "length big_data = 1073741816"
  by (simp add: big_data_def)

lemma big_data_nonempty [simp]: "big_data \<noteq> []"
proof
  assume "big_data = []"
  then have "length big_data = 0" by simp
  then show False by simp
qed

lemma records_size_big: "records_size big_recs = 4294967296"
  by (simp add: records_size_def big_recs_def big_rec_def MAXALIGN_def)

lemma word_of_int_u32: "(word_of_int (u32 n) :: 32 word) = word_of_int n"
  by (simp add: u32_def word_of_int_eq_iff take_bit_eq_mod)

text \<open>
  What \<^verbatim>\<open>EndPrepare\<close> does with the length in general: the assembled bytes are as many as
  the aligned segment lengths add up to, the header gets that sum plus 4 reduced modulo
  \<open>2 ^ 32\<close>, and the length error is raised exactly when the reduced value exceeds
  \<^verbatim>\<open>MaxAllocSize\<close>. Below \<open>2 ^ 32\<close> the reduced value is the sum itself.
\<close>

theorem EndPrepare_total_len:
  assumes sp: "StartPrepare e g children commitrels abortrels st = (Inr (), st1)"
    and rr: "register_records e recs (records st1) = Inr r2"
    and lens: "\<forall>r \<in> set recs. int (length (rec_data r)) \<le> 4294967288"
    and a1: "int (length children) * 4 \<le> 4294967288"
    and a2: "int (length commitrels) * 12 \<le> 4294967288"
    and a3: "int (length abortrels) * 12 \<le> 4294967288"
  shows "\<exists>r3. EndPrepare_assemble e r2
              = (if u32 (payload_size children commitrels abortrels recs + 4) > MaxAllocSize e
                 then Inl LimitExceeded else Inr (), r3)
            \<and> int (length (chain_bytes r3)) = payload_size children commitrels abortrels recs
            \<and> hdr_total_len (hdr_of_bytes (chain_bytes r3))
                = word_of_int (payload_size children commitrels abortrels recs + 4)
            \<and> (payload_size children commitrels abortrels recs + 4 < 4294967296 \<longrightarrow>
                 u32 (payload_size children commitrels abortrels recs + 4)
                   = payload_size children commitrels abortrels recs + 4)"
proof -
  let ?h = "start_hdr st g children commitrels abortrels"
  let ?S = "payload_size children commitrels abortrels recs"
  from StartPrepare_chain [OF sp a1 a2 a3] obtain A1 A2 A3 t where
    ch: "chain_bytes (records st1) = hdr_bytes ?h @ A1 @ A2 @ A3"
    and l1: "length A1 = nat (MAXALIGN (int (length children) * 4))"
    and l2: "length A2 = nat (MAXALIGN (int (length commitrels) * 12))"
    and l3: "length A3 = nat (MAXALIGN (int (length abortrels) * 12))"
    and tl: "total_len (records st1)
             = u32 (240 + MAXALIGN (int (length children) * 4)
                        + MAXALIGN (int (length commitrels) * 12)
                        + MAXALIGN (int (length abortrels) * 12))"
    and hd: "hd (blocks (records st1)) = hdr_bytes ?h @ t"
    and bl: "blocks (records st1) \<noteq> []"
    and m: "512 \<le> MaxAllocSize e"
    by blast
  have n1: "0 \<le> MAXALIGN (int (length children) * 4)"
    and n2: "0 \<le> MAXALIGN (int (length commitrels) * 12)"
    and n3: "0 \<le> MAXALIGN (int (length abortrels) * 12)"
    by (simp_all add: MAXALIGN_nonneg)
  have fits: "\<forall>r \<in> set recs. MAXALIGN (int (length (rec_data r))) < 4294967296"
    using lens MAXALIGN_fits by blast
  have u: "total_len (records st1) = u32 (total_len (records st1))" unfolding tl by (simp add: u32_def)
  from register_records_chain [OF rr fits u] bl obtain t' where
    c2: "chain_bytes r2 = chain_bytes (records st1) @ records_stream e (length (chain_bytes (records st1))) recs"
    and t2: "total_len r2 = u32 (total_len (records st1) + records_size recs)"
    and h2: "hd (blocks r2) = hd (blocks (records st1)) @ t'"
    and b2: "blocks r2 \<noteq> []"
    by auto
  have hd2: "hd (blocks r2) = hdr_bytes ?h @ (t @ t')" using h2 hd by simp
  have mg: "hdr_magic ?h = TWOPHASE_MAGIC" by (simp add: start_hdr_def)
  have tot: "u32 (total_len r2 + 12) = u32 (?S + 4)"
    unfolding t2 tl payload_size_def by (simp add: add.assoc u32_def mod_simps)
  from EndPrepare_assemble_chain [OF hd2 mg b2 m] obtain r3 where
    ep: "EndPrepare_assemble e r2 = (if u32 (?S + 4) > MaxAllocSize e then Inl LimitExceeded else Inr (), r3)"
    and c3: "chain_bytes r3 = patch_total_len (u32 (?S + 4)) (hdr_bytes ?h)
                 @ drop 240 (chain_bytes r2)
                 @ record_seg e (length (chain_bytes r2)) (TWOPHASE_RM_END_ID e) 0 [] 0"
    unfolding tot by auto
  have len2: "int (length (chain_bytes r2)) = ?S - 8"
    unfolding c2 ch payload_size_def
    using l1 l2 l3 n1 n2 n3 length_records_stream [of e _ recs] by simp
  have "int (length (chain_bytes r3)) = 240 + (int (length (chain_bytes r2)) - 240) + 8"
  proof -
    have "240 \<le> length (chain_bytes r2)" unfolding c2 ch by simp
    then show ?thesis unfolding c3 by (simp add: record_seg_def)
  qed
  then have len3: "int (length (chain_bytes r3)) = ?S" using len2 by simp
  have f: "hdr_total_len (hdr_of_bytes (chain_bytes r3)) = word_of_int (?S + 4)"
    unfolding c3 by (simp add: hdr_of_bytes_def rd32_patched_hdr word_of_int_u32)
  have nn: "0 \<le> ?S + 4"
    unfolding payload_size_def using n1 n2 n3 records_size_nonneg [of recs] by simp
  have r: "?S + 4 < 4294967296 \<longrightarrow> u32 (?S + 4) = ?S + 4"
    using nn by (simp add: u32_id)
  from ep len3 f r show ?thesis by blast
qed

text \<open>
  Claim C6. \<^verbatim>\<open>EndPrepare\<close> is meant to store the sum of the aligned segment lengths plus
  the size of the CRC and to refuse a state file longer than \<^verbatim>\<open>MaxAllocSize\<close> (its comment:
  check now, rather than fail at commit time). \<^verbatim>\<open>records.total_len\<close> is a \<^verbatim>\<open>uint32\<close>,
  though, and wraps. With four records of \<open>2 ^ 30 - 8\<close> bytes registered after the example's
  header and arrays the state file is 4294967568 bytes long, far above the limit of
  1073741823, and yet \<^verbatim>\<open>EndPrepare\<close> raises no error and writes 276 into
  \<^verbatim>\<open>total_len\<close>.
\<close>

theorem EndPrepare_length_wraps:
  "\<exists>r2 r3. register_records env0 big_recs (records ex_started) = Inr r2
      \<and> EndPrepare_assemble env0 r2 = (Inr (), r3)
      \<and> int (length (chain_bytes r3)) + 4 = 4294967572
      \<and> hdr_total_len (hdr_of_bytes (chain_bytes r3)) = 276
      \<and> MaxAllocSize env0 = 1073741823"
proof -
  have sp: "StartPrepare env0 0 [105, 106] [ex_rel] [] st_reserving = (Inr (), ex_started)"
    by code_simp
  have a1: "int (length [105, 106 :: TransactionId]) * 4 \<le> 4294967288" by simp
  have a2: "int (length [ex_rel]) * 12 \<le> 4294967288" by simp
  have a3: "int (length ([] :: RelFileNode list)) * 12 \<le> 4294967288" by simp
  let ?h = "start_hdr st_reserving 0 [105, 106] [ex_rel] []"
  from StartPrepare_chain [OF sp a1 a2 a3] obtain A1 A2 A3 t where
    ch: "chain_bytes (records ex_started) = hdr_bytes ?h @ A1 @ A2 @ A3"
    and l1: "length A1 = nat (MAXALIGN (int (length [105, 106 :: TransactionId]) * 4))"
    and l2: "length A2 = nat (MAXALIGN (int (length [ex_rel]) * 12))"
    and l3: "length A3 = nat (MAXALIGN (int (length ([] :: RelFileNode list)) * 12))"
    and tl: "total_len (records ex_started)
             = u32 (240 + MAXALIGN (int (length [105, 106 :: TransactionId]) * 4)
                        + MAXALIGN (int (length [ex_rel]) * 12)
                        + MAXALIGN (int (length ([] :: RelFileNode list)) * 12))"
    and hd: "hd (blocks (records ex_started)) = hdr_bytes ?h @ t"
    and bl: "blocks (records ex_started) \<noteq> []"
    and m: "512 \<le> MaxAllocSize env0"
    by blast
  have tl264: "total_len (records ex_started) = 264"
    unfolding tl by (simp add: MAXALIGN_def u32_def)
  have len264: "length (chain_bytes (records ex_started)) = 264"
    unfolding ch using l1 l2 l3 by (simp add: MAXALIGN_def)
  have mx: "MaxAllocSize env0 = 1073741823" by (simp add: env0_def)
  have fits: "\<forall>x \<in> set big_recs. MAXALIGN (int (length (rec_data x))) < 4294967296
           \<and> max (MAXALIGN (int (length (rec_data x)))) 512 \<le> MaxAllocSize env0"
    by (simp add: big_recs_def big_rec_def MAXALIGN_def mx)
  from register_records_ok [OF bl fits] obtain r2 where
    rr: "register_records env0 big_recs (records ex_started) = Inr r2" ..
  have fits': "\<forall>x \<in> set big_recs. MAXALIGN (int (length (rec_data x))) < 4294967296"
    using fits by blast
  have u: "total_len (records ex_started) = u32 (total_len (records ex_started))"
    unfolding tl264 by (simp add: u32_def)
  from register_records_chain [OF rr fits' u] bl obtain t' where
    c2: "chain_bytes r2 = chain_bytes (records ex_started) @ records_stream env0 (length (chain_bytes (records ex_started))) big_recs"
    and t2: "total_len r2 = u32 (total_len (records ex_started) + records_size big_recs)"
    and h2: "hd (blocks r2) = hd (blocks (records ex_started)) @ t'"
    and b2: "blocks r2 \<noteq> []"
    by auto
  have t2v: "total_len r2 = 264" unfolding t2 tl264 records_size_big by (simp add: u32_def)
  have hd2: "hd (blocks r2) = hdr_bytes ?h @ (t @ t')" using h2 hd by simp
  have mg: "hdr_magic ?h = TWOPHASE_MAGIC" by (simp add: start_hdr_def)
  have tot: "u32 (total_len r2 + 12) = 276" unfolding t2v by (simp add: u32_def)
  from EndPrepare_assemble_chain [OF hd2 mg b2 m] obtain r3 where
    ep: "EndPrepare_assemble env0 r2 = (Inr (), r3)"
    and c3: "chain_bytes r3 = patch_total_len 276 (hdr_bytes ?h)
                 @ drop 240 (chain_bytes r2)
                 @ record_seg env0 (length (chain_bytes r2)) (TWOPHASE_RM_END_ID env0) 0 [] 0"
    unfolding tot mx by auto
  have l2': "int (length (chain_bytes r2)) = 264 + 4294967296"
    unfolding c2 using len264 length_records_stream [of env0 264 big_recs] records_size_big by simp
  have "int (length (chain_bytes r3)) = 240 + (int (length (chain_bytes r2)) - 240) + 8"
    unfolding c3 using l2' by (simp add: record_seg_def)
  then have len3: "int (length (chain_bytes r3)) + 4 = 4294967572" using l2' by simp
  have "hdr_total_len (hdr_of_bytes (chain_bytes r3)) = word_of_int 276"
    unfolding c3 by (simp add: hdr_of_bytes_def rd32_patched_hdr)
  then have f: "hdr_total_len (hdr_of_bytes (chain_bytes r3)) = 276" by simp
  from rr ep len3 f mx show ?thesis by blast
qed


subsection \<open>Finishing a transaction that the commit log shows committed\<close>

lemma LockGXact_scan_locked:
  "LockGXact_scan e gid' user st ps = Some (Inr p, st')
     \<Longrightarrow> st' = (store p ((deref st p)\<lparr>locking_backend := MyBackendId e\<rparr>) st)\<lparr>MyLockedGxact := Some p\<rparr>"
proof (induction ps)
  case Nil
  then show ?case by simp
next
  case (Cons q qs)
  show ?case
  proof (cases "valid (deref st q) \<and> gid (deref st q) = gid'")
    case False
    then have "LockGXact_scan e gid' user st (q # qs) = LockGXact_scan e gid' user st qs"
      by (auto simp add: Let_def)
    with Cons.prems have "LockGXact_scan e gid' user st qs = Some (Inr p, st')" by simp
    then show ?thesis by (rule Cons.IH)
  next
    case True
    with Cons.prems show ?thesis
      by (auto simp add: Let_def split: if_splits)
  qed
qed

lemma LockGXact_locked:
  assumes "LockGXact e gid' user r st = (Inr (Some g), st1)"
  shows "st1 = (store g ((deref st g)\<lparr>locking_backend := MyBackendId e\<rparr>)
                  (st\<lparr>twophaseExitRegistered := True\<rparr>))\<lparr>MyLockedGxact := Some g\<rparr>"
proof -
  let ?st = "st\<lparr>twophaseExitRegistered := True\<rparr>"
  from assms have "LockGXact_scan e gid' user ?st (resident ?st) = Some (Inr g, st1)"
    by (auto simp add: LockGXact_def Let_def split: option.splits sum.splits if_splits prod.splits)
  from LockGXact_scan_locked [OF this] show ?thesis by simp
qed

lemma locked_slot_fields:
  "xid (proc (deref ((store g ((deref st g)\<lparr>locking_backend := b\<rparr>) st0)\<lparr>MyLockedGxact := m\<rparr>) g))
     = (if g < length (gxacts st0) then xid (proc (deref st g)) else xid (proc (deref st0 g)))"
  "prepare_begin_lsn (deref ((store g ((deref st g)\<lparr>locking_backend := b\<rparr>) st0)\<lparr>MyLockedGxact := m\<rparr>) g)
     = (if g < length (gxacts st0) then prepare_begin_lsn (deref st g) else prepare_begin_lsn (deref st0 g))"
  by (cases "g < length (gxacts st0)"; simp add: deref_def store_def list_update_beyond)+

text \<open>
  Claim C8, as the code has it. \<^verbatim>\<open>ROLLBACK PREPARED\<close> of a transaction that the commit log
  shows committed: once the slot is locked and its PREPARE record read back,
  \<^verbatim>\<open>RecordTransactionAbortPrepared\<close> raises the \<^verbatim>\<open>PANIC\<close> before it writes anything, so the
  WAL, the commit log, the distributed log and the files on disk are as before, no callback
  has run and the recovery map is untouched.
\<close>

theorem rollback_prepared_of_committed_panics:
  assumes lock: "LockGXact e gid' (GetUserId e) r st = (Inr (Some g), st1)"
    and rd: "XLogReadRecord st (prepare_begin_lsn (deref st g)) = Some (XLOG_XACT_PREPARE buf)"
    and dis: "disassemble buf = Inr d"
    and same: "hdr_xid (d_hdr d) = xid (proc (deref st g))"
    and cm: "TransactionIdDidCommit st (xid (proc (deref st g)))"
  shows "\<exists>st'. FinishPreparedTransaction e gid' False r st = (Inl Panic, st')
           \<and> xlog st' = xlog st \<and> clog st' = clog st
           \<and> distributedLog st' = distributedLog st \<and> unlinked st' = unlinked st
           \<and> callback_log st' = callback_log st \<and> prepared_map_ht st' = prepared_map_ht st"
proof -
  let ?st0 = "st\<lparr>twophaseExitRegistered := True\<rparr>"
  note s1 = LockGXact_locked [OF lock]
  have x1: "xid (proc (deref st1 g)) = xid (proc (deref st g))"
    unfolding s1 locked_slot_fields by (simp add: deref_def)
  have p1: "prepare_begin_lsn (deref st1 g) = prepare_begin_lsn (deref st g)"
    unfolding s1 locked_slot_fields by (simp add: deref_def)
  have keep: "xlog st1 = xlog st" "clog st1 = clog st" "distributedLog st1 = distributedLog st"
    "unlinked st1 = unlinked st" "callback_log st1 = callback_log st"
    "prepared_map_ht st1 = prepared_map_ht st"
    unfolding s1 by (simp_all add: store_def)
  have rd1: "XLogReadRecord st1 (prepare_begin_lsn (deref st g)) = Some (XLOG_XACT_PREPARE buf)"
    using rd keep(1) by (simp add: XLogReadRecord_def)
  let ?st2 = "st1\<lparr>CritSectionCount := CritSectionCount st1 + 1, MyProc_inCommit := True\<rparr>"
  have cm2: "TransactionIdDidCommit ?st2 (xid (proc (deref st g)))"
    using cm keep(2) by (simp add: TransactionIdDidCommit_def clog_status_def)
  have ab: "RecordTransactionAbortPrepared e (xid (proc (deref st g))) (d_children d) (d_abortrels d) ?st2
              = (Inl Panic, ?st2)"
    using cm2 by (simp add: RecordTransactionAbortPrepared_def)
  have "FinishPreparedTransaction e gid' False r st = (Inl Panic, ?st2)"
    unfolding FinishPreparedTransaction_def
    using ab by (simp add: lock x1 p1 rd1 XLogRecGetData_def dis same Let_def)
  with keep show ?thesis by simp
qed

theorem rollback_prepared_of_committed_panics_witness:
  "\<exists>st'. FinishPreparedTransaction env0 ''gxd'' False True st_committed = (Inl Panic, st')
           \<and> xlog st' = xlog st_committed \<and> clog st' = clog st_committed
           \<and> distributedLog st' = distributedLog st_committed \<and> unlinked st' = unlinked st_committed
           \<and> callback_log st' = callback_log st_committed
           \<and> prepared_map_ht st' = prepared_map_ht st_committed"
proof -
  have lock: "LockGXact env0 ''gxd'' (GetUserId env0) True st_committed
                = (Inr (Some 0), snd (LockGXact env0 ''gxd'' 1 True st_committed))"
    by code_simp
  have rd: "XLogReadRecord st_committed (prepare_begin_lsn (deref st_committed 0))
              = Some (XLOG_XACT_PREPARE (chain_bytes ex_assembled))"
    by code_simp
  have dis: "disassemble (chain_bytes ex_assembled) = Inr (projr (disassemble (chain_bytes ex_assembled)))"
    by code_simp
  have same: "hdr_xid (d_hdr (projr (disassemble (chain_bytes ex_assembled))))
                = xid (proc (deref st_committed 0))"
    by code_simp
  have cm: "TransactionIdDidCommit st_committed (xid (proc (deref st_committed 0)))"
    by code_simp
  from rollback_prepared_of_committed_panics [OF lock rd dis same cm] show ?thesis .
qed

text \<open>
  \<^verbatim>\<open>COMMIT PREPARED\<close> has no such check: on the same state, where XID 104 is already
  committed in the commit log, it returns \<^verbatim>\<open>true\<close> and has written a second commit record.
\<close>

theorem commit_prepared_of_committed_succeeds:
  "TransactionIdDidCommit st_committed 104
   \<and> xid (proc (deref st_committed 0)) = 104
   \<and> fst (FinishPreparedTransaction env0 ''gxd'' True True st_committed) = Inr True
   \<and> xlog (snd (FinishPreparedTransaction env0 ''gxd'' True True st_committed))
       = xlog st_committed @ [(lsn 200, XLOG_XACT_COMMIT_PREPARED 104 [ex_rel] [105, 106])]"
  by code_simp

subsection \<open>The recovery scan\<close>

lemma prepare_record_at_nextXid [simp]:
  "prepare_record_at (st\<lparr>nextXid := n\<rparr>) ptr = prepare_record_at st ptr"
  by (simp add: prepare_record_at_def XLogReadRecord_def)

lemma in_doubt_nextXid [simp]: "in_doubt (st\<lparr>nextXid := n\<rparr>) x = in_doubt st x"
  by (simp add: in_doubt_def TransactionIdDidCommit_def TransactionIdDidAbort_def clog_status_def)

lemma pending_xacts_nextXid [simp]:
  "pending_xacts (st\<lparr>nextXid := n\<rparr>) entries = pending_xacts st entries"
  by (induction entries) (auto split: option.splits)

lemma advance_past_append:
  "advance_past e (ss @ ts) nx = advance_past e ts (advance_past e ss nx)"
  by (induction ss arbitrary: nx) simp_all

lemma prescan_subxids_ok:
  "(\<And>s. s \<in> set subs \<Longrightarrow> TransactionIdFollows e s x)
     \<Longrightarrow> prescan_subxids e x subs nx = Inr (advance_past e subs nx)"
  by (induction subs arbitrary: nx) simp_all

lemma prescan_entries_step_pending:
  assumes rec: "prepare_record_at st ptr = Some (x, subs)"
    and doubt: "in_doubt st x"
    and sub: "\<And>s. s \<in> set subs \<Longrightarrow> TransactionIdFollows e s x"
  shows "prescan_entries e ((k, ptr) # rest) result st
           = prescan_entries e rest (if TransactionIdPrecedes e x result then x else result)
               (st\<lparr>nextXid := advance_past e subs (nextXid st)\<rparr>)"
proof -
  from rec obtain r buf where
    a: "XLogReadRecord st ptr = Some r" and b: "XLogRecGetData r = Some buf"
    and c: "\<not> length buf < 240"
    and d: "\<not> int (length buf) < 240 + sint (hdr_nsubxacts (hdr_of_bytes buf)) * 4"
    and x: "x = hdr_xid (hdr_of_bytes buf)"
    and s: "subs = read_xids buf 240 (nat (sint (hdr_nsubxacts (hdr_of_bytes buf))))"
    by (auto simp add: prepare_record_at_def split: option.splits if_splits)
  from doubt have e: "\<not> TransactionIdDidCommit st (hdr_xid (hdr_of_bytes buf))"
    and f: "\<not> TransactionIdDidAbort st (hdr_xid (hdr_of_bytes buf))"
    by (simp_all add: in_doubt_def x)
  have "prescan_subxids e x subs (nextXid st) = Inr (advance_past e subs (nextXid st))"
    using sub by (rule prescan_subxids_ok)
  then have g: "prescan_subxids e (hdr_xid (hdr_of_bytes buf))
             (read_xids buf 240 (nat (sint (hdr_nsubxacts (hdr_of_bytes buf))))) (nextXid st)
           = Inr (advance_past e
                    (read_xids buf 240 (nat (sint (hdr_nsubxacts (hdr_of_bytes buf))))) (nextXid st))"
    unfolding x s .
  show ?thesis
    unfolding x s using c d e f by (simp add: a b g Let_def)
qed

lemma prescan_entries_step_settled:
  assumes rec: "prepare_record_at st ptr = Some (x, subs)"
    and doubt: "\<not> in_doubt st x"
  shows "prescan_entries e ((k, ptr) # rest) result st = prescan_entries e rest result st"
proof -
  from rec obtain r buf where
    a: "XLogReadRecord st ptr = Some r" and b: "XLogRecGetData r = Some buf"
    and c: "\<not> length buf < 240"
    and x: "x = hdr_xid (hdr_of_bytes buf)"
    by (auto simp add: prepare_record_at_def split: option.splits if_splits)
  from doubt have "TransactionIdDidCommit st (hdr_xid (hdr_of_bytes buf))
                     \<or> TransactionIdDidAbort st (hdr_xid (hdr_of_bytes buf))"
    by (simp add: in_doubt_def x)
  then show ?thesis
    using c by (auto simp add: a b Let_def)
qed

lemma prescan_entries_spec:
  assumes wf: "\<And>k ptr. (k, ptr) \<in> set entries \<Longrightarrow> prepare_record_at st ptr \<noteq> None"
    and sub: "\<And>x subs s. (x, subs) \<in> set (pending_xacts st entries) \<Longrightarrow> s \<in> set subs
                \<Longrightarrow> TransactionIdFollows e s x"
  shows "prescan_entries e entries result st
           = (Inr (running_min e (map fst (pending_xacts st entries)) result),
              st\<lparr>nextXid := advance_past e (concat (map snd (pending_xacts st entries))) (nextXid st)\<rparr>)"
  using wf sub
proof (induction entries arbitrary: result st)
  case Nil
  show ?case by simp
next
  case (Cons a entries)
  obtain k ptr where a: "a = (k, ptr)" by (cases a)
  from Cons.prems(1) [of k ptr] a obtain x subs where
    rec: "prepare_record_at st ptr = Some (x, subs)" by auto
  show ?case
  proof (cases "in_doubt st x")
    case True
    then have pend: "pending_xacts st (a # entries) = (x, subs) # pending_xacts st entries"
      by (simp add: a rec)
    have sx: "s \<in> set subs \<Longrightarrow> TransactionIdFollows e s x" for s
      using Cons.prems(2) [of x subs s] pend by auto
    let ?st = "st\<lparr>nextXid := advance_past e subs (nextXid st)\<rparr>"
    have wf': "(k', ptr') \<in> set entries \<Longrightarrow> prepare_record_at ?st ptr' \<noteq> None" for k' ptr'
      using Cons.prems(1) [of k' ptr'] by auto
    have sub': "(x', subs') \<in> set (pending_xacts ?st entries) \<Longrightarrow> s \<in> set subs'
                  \<Longrightarrow> TransactionIdFollows e s x'" for x' subs' s
      using Cons.prems(2) [of x' subs' s] pend by auto
    have step: "prescan_entries e (a # entries) result st
                  = prescan_entries e entries (if TransactionIdPrecedes e x result then x else result) ?st"
      unfolding a using rec True sx by (rule prescan_entries_step_pending)
    have ih: "prescan_entries e entries (if TransactionIdPrecedes e x result then x else result) ?st
                = (Inr (running_min e (map fst (pending_xacts ?st entries))
                          (if TransactionIdPrecedes e x result then x else result)),
                   ?st\<lparr>nextXid := advance_past e (concat (map snd (pending_xacts ?st entries)))
                                      (nextXid ?st)\<rparr>)"
      using wf' sub' by (rule Cons.IH)
    show ?thesis
      unfolding step ih by (simp add: pend advance_past_append)
  next
    case False
    then have pend: "pending_xacts st (a # entries) = pending_xacts st entries"
      by (simp add: a rec)
    have wf': "(k', ptr') \<in> set entries \<Longrightarrow> prepare_record_at st ptr' \<noteq> None" for k' ptr'
      using Cons.prems(1) [of k' ptr'] by auto
    have sub': "(x', subs') \<in> set (pending_xacts st entries) \<Longrightarrow> s \<in> set subs'
                  \<Longrightarrow> TransactionIdFollows e s x'" for x' subs' s
      using Cons.prems(2) [of x' subs' s] pend by auto
    have step: "prescan_entries e (a # entries) result st = prescan_entries e entries result st"
      unfolding a using rec False by (rule prescan_entries_step_settled)
    have ih: "prescan_entries e entries result st
                = (Inr (running_min e (map fst (pending_xacts st entries)) result),
                   st\<lparr>nextXid := advance_past e (concat (map snd (pending_xacts st entries)))
                                     (nextXid st)\<rparr>)"
      using wf' sub' by (rule Cons.IH)
    show ?thesis
      unfolding step ih by (simp add: pend)
  qed
qed

lemma PrescanPreparedTransactions_entries:
  "PrescanPreparedTransactions e st = prescan_entries e (recovery_entries st) (nextXid st) st"
  by (simp add: PrescanPreparedTransactions_def recovery_entries_def split: option.splits)

lemma running_min_props:
  assumes lin: "\<And>a b. a \<in> X \<Longrightarrow> b \<in> X \<Longrightarrow> TransactionIdPrecedes e a b = (pos a < pos b)"
  shows "r \<in> X \<Longrightarrow> set xs \<subseteq> X
     \<Longrightarrow> running_min e xs r \<in> insert r (set xs)
         \<and> (pos :: TransactionId \<Rightarrow> int) (running_min e xs r) \<le> pos r
         \<and> (\<forall>x \<in> set xs. pos (running_min e xs r) \<le> pos x)"
proof (induction xs arbitrary: r)
  case Nil
  show ?case by simp
next
  case (Cons x xs)
  let ?r = "if TransactionIdPrecedes e x r then x else r"
  have xX: "x \<in> X" and xsX: "set xs \<subseteq> X" using Cons.prems(2) by simp_all
  have rX: "?r \<in> X" using xX Cons.prems(1) by simp
  have le: "pos ?r \<le> pos r \<and> pos ?r \<le> pos x \<and> ?r \<in> {r, x}"
    using lin [OF xX Cons.prems(1)] by auto
  from Cons.IH [OF rX xsX] have
    m: "running_min e xs ?r \<in> insert ?r (set xs)"
    and l: "pos (running_min e xs ?r) \<le> pos ?r"
    and a: "\<forall>y \<in> set xs. pos (running_min e xs ?r) \<le> pos y"
    by blast+
  have eq: "running_min e (x # xs) r = running_min e xs ?r" by simp
  have 1: "running_min e (x # xs) r \<in> insert r (set (x # xs))"
    unfolding eq using m le by auto
  have 2: "pos (running_min e (x # xs) r) \<le> pos r"
    unfolding eq using l le by linarith
  have 3: "\<forall>y \<in> set (x # xs). pos (running_min e (x # xs) r) \<le> pos y"
    unfolding eq using a l le by auto
  from 1 2 3 show ?case by blast
qed

lemma advance_past_props:
  assumes lin: "\<And>a b. a \<in> X \<Longrightarrow> b \<in> X
                  \<Longrightarrow> TransactionIdFollowsOrEquals e a b = (pos b \<le> pos a)"
  shows "nx \<in> X \<Longrightarrow> set ss \<subseteq> X \<Longrightarrow> TransactionIdAdvance e ` set ss \<subseteq> X
     \<Longrightarrow> (\<And>s. s \<in> set ss \<Longrightarrow> pos s < pos (TransactionIdAdvance e s))
     \<Longrightarrow> advance_past e ss nx \<in> X
         \<and> (pos :: TransactionId \<Rightarrow> int) nx \<le> pos (advance_past e ss nx)
         \<and> (\<forall>s \<in> set ss. pos s < pos (advance_past e ss nx))"
proof (induction ss arbitrary: nx)
  case Nil
  then show ?case by simp
next
  case (Cons s ss)
  let ?n = "if TransactionIdFollowsOrEquals e s nx then TransactionIdAdvance e s else nx"
  have sX: "s \<in> X" and ssX: "set ss \<subseteq> X" using Cons.prems(2) by simp_all
  have aX: "TransactionIdAdvance e s \<in> X" and asX: "TransactionIdAdvance e ` set ss \<subseteq> X"
    using Cons.prems(3) by simp_all
  have gt: "pos s < pos (TransactionIdAdvance e s)" using Cons.prems(4) [of s] by simp
  have gts: "\<And>t. t \<in> set ss \<Longrightarrow> pos t < pos (TransactionIdAdvance e t)"
    using Cons.prems(4) by simp
  have nX: "?n \<in> X" using aX Cons.prems(1) by simp
  have st: "pos nx \<le> pos ?n \<and> pos s < pos ?n"
    using lin [OF sX Cons.prems(1)] gt by auto
  from Cons.IH [OF nX ssX asX gts] have
    m: "advance_past e ss ?n \<in> X"
    and l: "pos ?n \<le> pos (advance_past e ss ?n)"
    and a: "\<forall>t \<in> set ss. pos t < pos (advance_past e ss ?n)"
    by blast+
  have eq: "advance_past e (s # ss) nx = advance_past e ss ?n" by simp
  have 1: "advance_past e (s # ss) nx \<in> X" unfolding eq by (rule m)
  have 2: "pos nx \<le> pos (advance_past e (s # ss) nx)" unfolding eq using l st by linarith
  have 3: "\<forall>t \<in> set (s # ss). pos t < pos (advance_past e (s # ss) nx)"
    unfolding eq using a l st by auto
  from 1 2 3 show ?case by blast
qed

lemma advance_past_mem:
  "advance_past e ss nx \<in> insert nx (TransactionIdAdvance e ` set ss)"
proof (induction ss arbitrary: nx)
  case Nil
  show ?case by simp
next
  case (Cons s ss)
  let ?n = "if TransactionIdFollowsOrEquals e s nx then TransactionIdAdvance e s else nx"
  have "advance_past e ss ?n \<in> insert ?n (TransactionIdAdvance e ` set ss)" by (rule Cons.IH)
  moreover have "?n \<in> {nx, TransactionIdAdvance e s}" by simp
  moreover have "advance_past e (s # ss) nx = advance_past e ss ?n" by simp
  ultimately show ?case by auto
qed

lemma advance_past_unchanged:
  "(\<And>s. s \<in> set ss \<Longrightarrow> \<not> TransactionIdFollowsOrEquals e s nx)
     \<Longrightarrow> advance_past e ss nx = nx"
  by (induction ss) simp_all

lemma recovery_entries_nextXid [simp]:
  "recovery_entries (st\<lparr>nextXid := n\<rparr>) = recovery_entries st"
  by (simp add: recovery_entries_def)

text \<open>
  Claim C3. \<^verbatim>\<open>PrescanPreparedTransactions\<close> returns the oldest XID among the prepared
  transactions of the recovery map that the commit log shows neither committed nor aborted,
  or the next XID it found on entry if there is none, and it advances the next-XID counter:
  the new value is not before the old one, it is the old one or the advance of one of
  those transactions' subtransaction XIDs, it is the old one if all of these already
  precede it, and it is strictly after every one of them. Nothing else in the state
  changes. The XID comparisons
  (transam.c) are taken from the environment; they are assumed to order the XIDs involved
  (the set \<open>X\<close>) as some map \<open>pos\<close> into the integers does, and advancing a subtransaction
  XID moves up in that order. As the function's comment says, the next XID on entry is
  past every XID with evidence in the WAL, hence past the XID of every PREPARE record, and
  every map entry points to a PREPARE record; the subtransaction XIDs follow their
  transaction's XID, as the function asserts.
\<close>

theorem PrescanPreparedTransactions_oldest_and_advance:
  fixes pos :: "TransactionId \<Rightarrow> int"
  assumes wf: "\<forall>(k, ptr) \<in> set (recovery_entries st). prepare_record_at st ptr \<noteq> None"
    and nX: "nextXid st \<in> X"
    and pX: "\<forall>(x, subs) \<in> set (pending_xacts st (recovery_entries st)).
               x \<in> X \<and> (\<forall>s \<in> set subs. s \<in> X \<and> TransactionIdAdvance e s \<in> X
                                        \<and> pos s < pos (TransactionIdAdvance e s))"
    and lin: "\<forall>a \<in> X. \<forall>b \<in> X.
                (TransactionIdPrecedes e a b = (pos a < pos b))
              \<and> (TransactionIdFollows e a b = (pos b < pos a))
              \<and> (TransactionIdFollowsOrEquals e a b = (pos b \<le> pos a))"
    and evid: "\<forall>(x, subs) \<in> set (pending_xacts st (recovery_entries st)).
                 TransactionIdPrecedes e x (nextXid st)"
    and sub: "\<forall>(x, subs) \<in> set (pending_xacts st (recovery_entries st)).
                \<forall>s \<in> set subs. TransactionIdFollows e s x"
  shows "\<exists>r nx. PrescanPreparedTransactions e st = (Inr r, st\<lparr>nextXid := nx\<rparr>)
           \<and> (pending_xacts st (recovery_entries st) = [] \<longrightarrow> r = nextXid st \<and> nx = nextXid st)
           \<and> (pending_xacts st (recovery_entries st) \<noteq> [] \<longrightarrow>
                r \<in> fst ` set (pending_xacts st (recovery_entries st))
                \<and> (\<forall>x \<in> fst ` set (pending_xacts st (recovery_entries st)).
                      \<not> TransactionIdPrecedes e x r))
           \<and> (\<forall>(x, subs) \<in> set (pending_xacts st (recovery_entries st)).
                 \<forall>s \<in> set subs. TransactionIdFollows e nx s)
           \<and> \<not> TransactionIdPrecedes e nx (nextXid st)
           \<and> nx \<in> insert (nextXid st)
                   (TransactionIdAdvance e
                      ` set (concat (map snd (pending_xacts st (recovery_entries st)))))
           \<and> ((\<forall>(x, subs) \<in> set (pending_xacts st (recovery_entries st)).
                  \<forall>s \<in> set subs. TransactionIdPrecedes e s (nextXid st))
                \<longrightarrow> nx = nextXid st)"
proof -
  let ?P = "pending_xacts st (recovery_entries st)"
  let ?xs = "map fst ?P"
  let ?ss = "concat (map snd ?P)"
  let ?r = "running_min e ?xs (nextXid st)"
  let ?nx = "advance_past e ?ss (nextXid st)"
  have wf': "\<And>k ptr. (k, ptr) \<in> set (recovery_entries st) \<Longrightarrow> prepare_record_at st ptr \<noteq> None"
    using wf by blast
  have sub': "\<And>x subs s. (x, subs) \<in> set ?P \<Longrightarrow> s \<in> set subs \<Longrightarrow> TransactionIdFollows e s x"
    using sub by blast
  have run: "PrescanPreparedTransactions e st = (Inr ?r, st\<lparr>nextXid := ?nx\<rparr>)"
    unfolding PrescanPreparedTransactions_entries
    by (rule prescan_entries_spec [OF wf' sub'])
  have xsX: "set ?xs \<subseteq> X" using pX by auto
  have ssX: "set ?ss \<subseteq> X" using pX by auto
  have asX: "TransactionIdAdvance e ` set ?ss \<subseteq> X" using pX by auto
  have up: "\<And>s. s \<in> set ?ss \<Longrightarrow> pos s < pos (TransactionIdAdvance e s)" using pX by auto
  have linP: "\<And>a b. a \<in> X \<Longrightarrow> b \<in> X \<Longrightarrow> TransactionIdPrecedes e a b = (pos a < pos b)"
    using lin by blast
  have linF: "\<And>a b. a \<in> X \<Longrightarrow> b \<in> X \<Longrightarrow> TransactionIdFollows e a b = (pos b < pos a)"
    using lin by blast
  have linE: "\<And>a b. a \<in> X \<Longrightarrow> b \<in> X \<Longrightarrow> TransactionIdFollowsOrEquals e a b = (pos b \<le> pos a)"
    using lin by blast
  from running_min_props [of X e pos, OF linP nX xsX] have
    rm: "?r \<in> insert (nextXid st) (set ?xs)"
    and rl: "\<forall>x \<in> set ?xs. pos ?r \<le> pos x"
    by blast+
  from advance_past_props [of X e pos, OF linE nX ssX asX up] have
    aX: "?nx \<in> X" and ge: "pos (nextXid st) \<le> pos ?nx"
    and al: "\<forall>s \<in> set ?ss. pos s < pos ?nx"
    by blast+
  have rX: "?r \<in> X" using rm nX xsX by auto
  have none: "?P = [] \<longrightarrow> ?r = nextXid st \<and> ?nx = nextXid st" by simp
  have some: "?P \<noteq> [] \<longrightarrow> ?r \<in> fst ` set ?P \<and> (\<forall>x \<in> fst ` set ?P. \<not> TransactionIdPrecedes e x ?r)"
  proof
    assume ne: "?P \<noteq> []"
    then obtain x0 subs0 where in0: "(x0, subs0) \<in> set ?P" by (cases ?P) auto
    then have x0: "x0 \<in> set ?xs" by force
    have x0X: "x0 \<in> X" using x0 xsX by blast
    have "TransactionIdPrecedes e x0 (nextXid st)" using evid in0 by blast
    then have "pos x0 < pos (nextXid st)" using linP [OF x0X nX] by simp
    moreover have "pos ?r \<le> pos x0" using rl x0 by blast
    ultimately have "?r \<noteq> nextXid st" by auto
    then have mem: "?r \<in> fst ` set ?P" using rm by auto
    have "\<forall>x \<in> fst ` set ?P. \<not> TransactionIdPrecedes e x ?r"
    proof
      fix x assume "x \<in> fst ` set ?P"
      then have xin: "x \<in> set ?xs" by simp
      then have "pos ?r \<le> pos x" using rl by blast
      moreover have "x \<in> X" using xin xsX by blast
      ultimately show "\<not> TransactionIdPrecedes e x ?r" using linP [of x ?r] rX by simp
    qed
    with mem show "?r \<in> fst ` set ?P \<and> (\<forall>x \<in> fst ` set ?P. \<not> TransactionIdPrecedes e x ?r)" ..
  qed
  have fol: "\<forall>(x, subs) \<in> set ?P. \<forall>s \<in> set subs. TransactionIdFollows e ?nx s"
  proof (clarify)
    fix x subs s assume in1: "(x, subs) \<in> set ?P" and in2: "s \<in> set subs"
    then have sin: "s \<in> set ?ss" by force
    then have "pos s < pos ?nx" using al by blast
    moreover have "s \<in> X" using sin ssX by blast
    ultimately show "TransactionIdFollows e ?nx s" using linF [OF aX, of s] by simp
  qed
  have notbefore: "\<not> TransactionIdPrecedes e ?nx (nextXid st)"
    using linP [OF aX nX] ge by simp
  have mem: "?nx \<in> insert (nextXid st) (TransactionIdAdvance e ` set ?ss)"
    by (rule advance_past_mem)
  have same: "(\<forall>(x, subs) \<in> set ?P. \<forall>s \<in> set subs. TransactionIdPrecedes e s (nextXid st))
                \<longrightarrow> ?nx = nextXid st"
  proof
    assume before: "\<forall>(x, subs) \<in> set ?P. \<forall>s \<in> set subs. TransactionIdPrecedes e s (nextXid st)"
    have "\<not> TransactionIdFollowsOrEquals e s (nextXid st)" if sin: "s \<in> set ?ss" for s
    proof -
      from sin obtain x subs where "(x, subs) \<in> set ?P" and "s \<in> set subs" by auto
      with before have "TransactionIdPrecedes e s (nextXid st)" by blast
      moreover have sX: "s \<in> X" using sin ssX by blast
      ultimately have "pos s < pos (nextXid st)" using linP [OF sX nX] by simp
      then show ?thesis using linE [OF sX nX] by simp
    qed
    then show "?nx = nextXid st" by (rule advance_past_unchanged)
  qed
  from run none some fol notbefore mem same show ?thesis by blast
qed

text \<open>
  After the crash of the example the map holds the prepared transaction 104 with the
  subtransactions 105 and 106, and replay has left the next XID at 105: the scan returns
  104 and moves the next XID to 107. Where the next XID is 200 already, the scan returns
  104 and leaves it at 200.
\<close>

theorem PrescanPreparedTransactions_oldest_and_advance_witness:
  "PrescanPreparedTransactions env0 st_replayed = (Inr 104, st_replayed\<lparr>nextXid := 107\<rparr>)
   \<and> PrescanPreparedTransactions env0 st_prepared = (Inr 104, st_prepared\<lparr>nextXid := 200\<rparr>)
   \<and> pending_xacts st_replayed (recovery_entries st_replayed) = [(104, [105, 106])]
   \<and> pending_xacts st_prepared (recovery_entries st_prepared) = [(104, [105, 106])]
   \<and> nextXid st_replayed = 105 \<and> nextXid st_prepared = 200"
proof -
  have E: "recovery_entries st_prepared = [(104, lsn 100)]" by code_simp
  have R: "prepare_record_at st_prepared (lsn 100) = Some (104, [105, 106])" by code_simp
  have D: "in_doubt st_prepared 104" by code_simp
  have n200: "nextXid st_prepared = 200" by code_simp
  have P: "pending_xacts st_prepared (recovery_entries st_prepared) = [(104, [105, 106])]"
    unfolding E using R D by simp
  have n105: "nextXid st_replayed = 105" by (simp add: st_replayed_def)
  have E': "recovery_entries st_replayed = [(104, lsn 100)]"
    unfolding st_replayed_def using E by simp
  have P': "pending_xacts st_replayed (recovery_entries st_replayed) = [(104, [105, 106])]"
    unfolding st_replayed_def using P by simp
  have R': "prepare_record_at st_replayed (lsn 100) = Some (104, [105, 106])"
    unfolding st_replayed_def using R by simp
  have cmp: "TransactionIdPrecedes env0 = xid_precedes" "TransactionIdFollows env0 = xid_follows"
    "TransactionIdFollowsOrEquals env0 = xid_follows_or_equals"
    "TransactionIdAdvance env0 = xid_advance"
    by (simp_all add: env0_def)
  have lin: "\<forall>a \<in> set [104, 105, 106, 107, 200 :: TransactionId]. \<forall>b \<in> set [104, 105, 106, 107, 200].
                (TransactionIdPrecedes env0 a b = (uint a < uint b))
              \<and> (TransactionIdFollows env0 a b = (uint b < uint a))
              \<and> (TransactionIdFollowsOrEquals env0 a b = (uint b \<le> uint a))"
    unfolding cmp by code_simp
  have adv: "xid_advance 105 = 106" "xid_advance 106 = 107" by code_simp+
  have fl: "\<not> xid_follows 105 106" "\<not> xid_follows 106 106" "xid_follows 105 104"
    "xid_follows 106 104" "xid_precedes 104 105" "xid_precedes 104 200"
    "xid_precedes 105 200" "xid_precedes 106 200"
    by code_simp+
  have wf': "\<forall>(k, ptr) \<in> set (recovery_entries st_replayed). prepare_record_at st_replayed ptr \<noteq> None"
    unfolding E' using R' by simp
  have nX': "nextXid st_replayed \<in> set [104, 105, 106, 107, 200]" unfolding n105 by simp
  have pX': "\<forall>(x, subs) \<in> set (pending_xacts st_replayed (recovery_entries st_replayed)).
               x \<in> set [104, 105, 106, 107, 200]
               \<and> (\<forall>s \<in> set subs. s \<in> set [104, 105, 106, 107, 200]
                     \<and> TransactionIdAdvance env0 s \<in> set [104, 105, 106, 107, 200]
                     \<and> uint s < uint (TransactionIdAdvance env0 s))"
    unfolding P' cmp by (simp add: adv)
  have evid': "\<forall>(x, subs) \<in> set (pending_xacts st_replayed (recovery_entries st_replayed)).
                 TransactionIdPrecedes env0 x (nextXid st_replayed)"
    unfolding P' cmp n105 by (simp add: fl)
  have sub': "\<forall>(x, subs) \<in> set (pending_xacts st_replayed (recovery_entries st_replayed)).
                \<forall>s \<in> set subs. TransactionIdFollows env0 s x"
    unfolding P' cmp by (simp add: fl)
  from PrescanPreparedTransactions_oldest_and_advance [OF wf' nX' pX' lin evid' sub']
  obtain r nx where
    run: "PrescanPreparedTransactions env0 st_replayed = (Inr r, st_replayed\<lparr>nextXid := nx\<rparr>)"
    and r: "r \<in> fst ` set (pending_xacts st_replayed (recovery_entries st_replayed))"
    and fo: "\<forall>(x, subs) \<in> set (pending_xacts st_replayed (recovery_entries st_replayed)).
                 \<forall>s \<in> set subs. TransactionIdFollows env0 nx s"
    and mem: "nx \<in> insert (nextXid st_replayed)
                   (TransactionIdAdvance env0
                      ` set (concat (map snd (pending_xacts st_replayed (recovery_entries st_replayed)))))"
    unfolding P' by auto
  from r have r104: "r = 104" unfolding P' by simp
  from fo have f106: "xid_follows nx 106" unfolding P' cmp by simp
  from mem have "nx = 105 \<or> nx = 106 \<or> nx = 107" unfolding P' cmp n105 by (auto simp add: adv)
  with f106 fl have nx107: "nx = 107" by auto
  have one: "PrescanPreparedTransactions env0 st_replayed = (Inr 104, st_replayed\<lparr>nextXid := 107\<rparr>)"
    using run r104 nx107 by simp
  have wf: "\<forall>(k, ptr) \<in> set (recovery_entries st_prepared). prepare_record_at st_prepared ptr \<noteq> None"
    unfolding E using R by simp
  have nX: "nextXid st_prepared \<in> set [104, 105, 106, 107, 200]" unfolding n200 by simp
  have pX: "\<forall>(x, subs) \<in> set (pending_xacts st_prepared (recovery_entries st_prepared)).
               x \<in> set [104, 105, 106, 107, 200]
               \<and> (\<forall>s \<in> set subs. s \<in> set [104, 105, 106, 107, 200]
                     \<and> TransactionIdAdvance env0 s \<in> set [104, 105, 106, 107, 200]
                     \<and> uint s < uint (TransactionIdAdvance env0 s))"
    unfolding P cmp by (simp add: adv)
  have evid: "\<forall>(x, subs) \<in> set (pending_xacts st_prepared (recovery_entries st_prepared)).
                 TransactionIdPrecedes env0 x (nextXid st_prepared)"
    unfolding P cmp n200 by (simp add: fl)
  have sub: "\<forall>(x, subs) \<in> set (pending_xacts st_prepared (recovery_entries st_prepared)).
                \<forall>s \<in> set subs. TransactionIdFollows env0 s x"
    unfolding P cmp by (simp add: fl)
  have before: "\<forall>(x, subs) \<in> set (pending_xacts st_prepared (recovery_entries st_prepared)).
                  \<forall>s \<in> set subs. TransactionIdPrecedes env0 s (nextXid st_prepared)"
    unfolding P cmp n200 by (simp add: fl)
  from PrescanPreparedTransactions_oldest_and_advance [OF wf nX pX lin evid sub]
  obtain r2 nx2 where
    run2: "PrescanPreparedTransactions env0 st_prepared = (Inr r2, st_prepared\<lparr>nextXid := nx2\<rparr>)"
    and r2: "r2 \<in> fst ` set (pending_xacts st_prepared (recovery_entries st_prepared))"
    and same: "(\<forall>(x, subs) \<in> set (pending_xacts st_prepared (recovery_entries st_prepared)).
                  \<forall>s \<in> set subs. TransactionIdPrecedes env0 s (nextXid st_prepared))
                \<longrightarrow> nx2 = nextXid st_prepared"
    unfolding P by auto
  from r2 have r2104: "r2 = 104" unfolding P by simp
  from same before have "nx2 = 200" unfolding n200 by blast
  with run2 r2104 have two: "PrescanPreparedTransactions env0 st_prepared
                               = (Inr 104, st_prepared\<lparr>nextXid := 200\<rparr>)" by simp
  from one two P' P n105 n200 show ?thesis by blast
qed

end
